theory Spec2Isabelle
  imports Complex_Main "HOL-Library.Word" "HOL-Library.Sublist"
begin

section \<open>Shared vocabulary\<close>

text \<open>
  A Go run-time panic is a value of its own: a slice index out of range, or a method or
  field access through a nil pointer.
\<close>

datatype go_panic = IndexOutOfRange | NilDereference

section \<open>mediaserver: request-path helpers\<close>

text \<open>
  \<^verbatim>\<open>parseStreamID\<close> compiles the regular expression
  \<^verbatim>\<open>\/stream\/([[:alpha:]]|\d)*\<close>, takes its leftmost match in the request path
  (\<^verbatim>\<open>FindString\<close>, the empty string when there is none) and deletes every
  \<^verbatim>\<open>"/stream/"\<close> from the match with \<^verbatim>\<open>strings.Replace(match, "/stream/", "", -1)\<close>.
  A Go string is a byte sequence; the two character classes are ASCII-only, so a byte
  of a multi-byte rune belongs to neither.
\<close>

definition is_alpha :: "char \<Rightarrow> bool" where
  "is_alpha c = (let n = (of_char c :: nat) in (65 \<le> n \<and> n \<le> 90) \<or> (97 \<le> n \<and> n \<le> 122))"

definition is_digit :: "char \<Rightarrow> bool" where
  "is_digit c = (let n = (of_char c :: nat) in 48 \<le> n \<and> n \<le> 57)"

text \<open>One step of the starred group \<^verbatim>\<open>([[:alpha:]]|\d)\<close>.\<close>

definition id_class :: "char \<Rightarrow> bool" where
  "id_class c = (is_alpha c \<or> is_digit c)"

definition stream_lit :: string where
  "stream_lit = ''/stream/''"

text \<open>
  The greedy star consumes characters of the class one by one; nothing follows the star
  in the expression, so the engine never gives a character back.
\<close>

fun match_star :: "string \<Rightarrow> string" where
  "match_star [] = []"
| "match_star (c # cs) = (if id_class c then c # match_star cs else [])"

text \<open>The expression anchored at the head of the input: the literal, then the star.\<close>

definition match_here :: "string \<Rightarrow> string option" where
  "match_here s =
     (if prefix stream_lit s then Some (stream_lit @ match_star (drop (length stream_lit) s))
      else None)"

text \<open>
  \<^verbatim>\<open>regexp.FindString\<close>: the match at the leftmost position that has one, and the
  empty string when no position has.
\<close>

fun FindString :: "string \<Rightarrow> string" where
  "FindString [] = (case match_here [] of Some m \<Rightarrow> m | None \<Rightarrow> [])"
| "FindString (c # cs) = (case match_here (c # cs) of Some m \<Rightarrow> m | None \<Rightarrow> FindString cs)"

text \<open>
  \<^verbatim>\<open>strings.Replace(s, old, new, -1)\<close>: every non-overlapping occurrence of
  \<^verbatim>\<open>old\<close>, scanning from the left, becomes \<^verbatim>\<open>new\<close>. For an empty \<^verbatim>\<open>old\<close> Go
  inserts \<^verbatim>\<open>new\<close> before every character and at the end.
\<close>

function Replace :: "string \<Rightarrow> string \<Rightarrow> string \<Rightarrow> string" where
  "Replace s old new =
     (if old = [] then new @ concat (map (\<lambda>c. c # new) s)
      else if s = [] then []
      else if prefix old s then new @ Replace (drop (length old) s) old new
      else hd s # Replace (tl s) old new)"
  by pat_completeness auto
termination
  by (relation "measure (\<lambda>(s, old, new). length s)") (auto simp: neq_Nil_conv)

declare Replace.simps [simp del]

definition parseStreamID :: "string \<Rightarrow> string" where
  "parseStreamID reqPath =
     (let match = FindString reqPath
      in if match \<noteq> [] then Replace match stream_lit [] else [])"

section \<open>mediaserver: the RTMP publish handler\<close>

subsection \<open>Errors, streams and the stream registry\<close>

text \<open>
  mediaserver.go declares four error values: \<^verbatim>\<open>ErrNotFound\<close>, \<^verbatim>\<open>ErrAlreadyExists\<close>,
  \<^verbatim>\<open>ErrRTMPPublish\<close> and \<^verbatim>\<open>ErrBroadcast\<close>. The error kinds of the specification
  also list \<^verbatim>\<open>InsufficientBalance\<close>; the source declares no such value and no function
  below returns it. It is a constructor here only so that a statement can say so.
\<close>

datatype error = ErrNotFound | ErrAlreadyExists | ErrRTMPPublish | ErrBroadcast
  | InsufficientBalance

datatype VideoFormat = RTMP | HLS

text \<open>
  \<^verbatim>\<open>stream.HLSSegment\<close>. The duration is a float64 in the source; no function of this
  development computes with it and it is kept as a real number.
\<close>

record HLSSegment =
  SeqNo :: "64 word"
  Name :: string
  Data :: "8 word list"
  Duration :: real
  EOF :: bool

text \<open>The zero value of the struct, and the literal \<^verbatim>\<open>stream.HLSSegment{EOF: true}\<close>.\<close>

definition zeroSegment :: HLSSegment where
  "zeroSegment = \<lparr>SeqNo = 0, Name = [], Data = [], Duration = 0, EOF = False\<rparr>"

definition eofSegment :: HLSSegment where
  "eofSegment = zeroSegment\<lparr>EOF := True\<rparr>"

record VideoStream =
  StreamID :: string
  Format :: VideoFormat
  written :: "HLSSegment list"

text \<open>
  Modelled from the spec: the stream registry \<^verbatim>\<open>StreamDB\<close> of package core is not
  among the sources. Section 4.1 of the specification gives its operations:
  \<^verbatim>\<open>add_stream(id, stream) -> ok | exists\<close> rejects duplicates,
  \<^verbatim>\<open>add_new_stream(id, kind) -> stream\<close> constructs an empty stream of the given kind
  and returns the handle, \<^verbatim>\<open>get_stream(id) -> stream?\<close>, and \<^verbatim>\<open>delete_stream(id)\<close>
  is idempotent and also releases the HLS buffer bound to the id.
  The registry is a finite map from stream ids to streams.
\<close>

type_synonym registry = "string \<rightharpoonup> VideoStream"

definition GetStream :: "registry \<Rightarrow> string \<Rightarrow> VideoStream option" where
  "GetStream db sid = db sid"

definition AddStream :: "registry \<Rightarrow> string \<Rightarrow> VideoStream \<Rightarrow> string option \<times> registry" where
  "AddStream db sid strm =
     (case db sid of
        Some _ \<Rightarrow> (Some ''exists'', db)
      | None \<Rightarrow> (None, db(sid \<mapsto> strm)))"

definition AddNewStream :: "registry \<Rightarrow> string \<Rightarrow> VideoFormat \<Rightarrow> VideoStream \<times> registry" where
  "AddNewStream db sid fmt = (\<lparr>StreamID = sid, Format = fmt, written = []\<rparr>, db)"

definition DeleteStream :: "registry \<Rightarrow> string \<Rightarrow> registry" where
  "DeleteStream db sid = db(sid := None)"

subsection \<open>The on-chain client\<close>

text \<open>
  The Ethereum client is an external collaborator. Its replies are data of the model:
  each kind of call answers from its own list of scripted replies (\<open>None\<close> is a
  non-nil error; an exhausted script answers with an error), and every call is logged,
  so that a statement can count the calls the handler made.
\<close>

datatype eth_call = CallTokenBalance | CallCheckRoundAndInit | CallJob | CallWaitForMinedTx
  | CallWaitUntilNextRound

record tx =
  Hash :: nat
  Gas :: int

record receipt =
  GasUsed :: int

record eth_client =
  balance_replies :: "int option list"
  job_replies :: "tx option list"
  mined_replies :: "receipt option list"
  round_replies :: "bool list"
  calls :: "eth_call list"

definition TokenBalance :: "eth_client \<Rightarrow> int option \<times> eth_client" where
  "TokenBalance e =
     (case balance_replies e of
        [] \<Rightarrow> (None, e\<lparr>calls := calls e @ [CallTokenBalance]\<rparr>)
      | r # rs \<Rightarrow> (r, e\<lparr>balance_replies := rs, calls := calls e @ [CallTokenBalance]\<rparr>))"

definition CheckRoundAndInit :: "eth_client \<Rightarrow> eth_client" where
  "CheckRoundAndInit e = e\<lparr>calls := calls e @ [CallCheckRoundAndInit]\<rparr>"

definition Job :: "eth_client \<Rightarrow> tx option \<times> eth_client" where
  "Job e =
     (case job_replies e of
        [] \<Rightarrow> (None, e\<lparr>calls := calls e @ [CallJob]\<rparr>)
      | r # rs \<Rightarrow> (r, e\<lparr>job_replies := rs, calls := calls e @ [CallJob]\<rparr>))"

definition WaitForMinedTx :: "eth_client \<Rightarrow> receipt option \<times> eth_client" where
  "WaitForMinedTx e =
     (case mined_replies e of
        [] \<Rightarrow> (None, e\<lparr>calls := calls e @ [CallWaitForMinedTx]\<rparr>)
      | r # rs \<Rightarrow> (r, e\<lparr>mined_replies := rs, calls := calls e @ [CallWaitForMinedTx]\<rparr>))"

text \<open>\<^verbatim>\<open>eth.WaitUntilNextRound\<close>: \<open>True\<close> when it returns a nil error.\<close>

definition WaitUntilNextRound :: "eth_client \<Rightarrow> bool \<times> eth_client" where
  "WaitUntilNextRound e =
     (case round_replies e of
        [] \<Rightarrow> (False, e\<lparr>calls := calls e @ [CallWaitUntilNextRound]\<rparr>)
      | r # rs \<Rightarrow> (r, e\<lparr>round_replies := rs, calls := calls e @ [CallWaitUntilNextRound]\<rparr>))"

text \<open>
  \<^verbatim>\<open>createBroadcastJob\<close>: the result of \<^verbatim>\<open>CheckRoundAndInit\<close> is dropped; a failed
  \<^verbatim>\<open>Job\<close> call, a failed wait for the receipt, and a receipt whose gas used equals the
  transaction's gas are each \<^verbatim>\<open>ErrBroadcast\<close>.
\<close>

definition createBroadcastJob :: "eth_client \<Rightarrow> (error + tx) \<times> eth_client" where
  "createBroadcastJob e =
     (let e1 = CheckRoundAndInit e;
          (t, e2) = Job e1
      in case t of
           None \<Rightarrow> (Inl ErrBroadcast, e2)
         | Some tx \<Rightarrow>
             (let (r, e3) = WaitForMinedTx e2
              in case r of
                   None \<Rightarrow> (Inl ErrBroadcast, e3)
                 | Some rc \<Rightarrow>
                     if Gas tx = GasUsed rc then (Inl ErrBroadcast, e3) else (Inr tx, e3)))"

text \<open>How many times \<^verbatim>\<open>createBroadcastJob\<close> was entered: it alone calls \<^verbatim>\<open>CheckRoundAndInit\<close>.\<close>

definition job_attempts :: "eth_client \<Rightarrow> nat" where
  "job_attempts e = length (filter (\<lambda>c. c = CallCheckRoundAndInit) (calls e))"

definition round_waits :: "eth_client \<Rightarrow> nat" where
  "round_waits e = length (filter (\<lambda>c. c = CallWaitUntilNextRound) (calls e))"

subsection \<open>The server and the handler\<close>

text \<open>The two goroutines the handler starts, by the streams they work on.\<close>

datatype task = SegmentRTMPToHLS string string | BroadcastToNetwork string

text \<open>
  The part of \<^verbatim>\<open>LivepeerMediaServer\<close> and of its node the handler reads and writes.
  \<^verbatim>\<open>Eth\<close> is \<open>None\<close> for a nil client (an off-chain node). \<^verbatim>\<open>BroadcastPrice\<close> is a
  package variable (150 at start, reset by \<^verbatim>\<open>/setBroadcastConfig\<close>).
\<close>

record server =
  Eth :: "eth_client option"
  StreamDB :: registry
  broadcastRtmpToHLSMap :: "string \<rightharpoonup> string"
  BroadcastPrice :: int
  spawned :: "task list"

text \<open>
  The job part of the handler, entered with a non-nil client after the streams are
  registered: one attempt; on failure a wait for the next round, whose own failure ends
  the handler, and one more attempt.
\<close>

definition createJobWithRetry :: "eth_client \<Rightarrow> error option \<times> eth_client" where
  "createJobWithRetry e =
     (let (r1, e1) = createBroadcastJob e
      in case r1 of
           Inr tx \<Rightarrow> (None, e1)
         | Inl _ \<Rightarrow>
             (let (ok, e2) = WaitUntilNextRound e1
              in if \<not> ok then (Some ErrBroadcast, e2)
                 else (let (r2, e3) = createBroadcastJob e2
                       in case r2 of
                            Inl _ \<Rightarrow> (Some ErrBroadcast, e3)
                          | Inr tx \<Rightarrow> (None, e3))))"

text \<open>
  The function returned by \<^verbatim>\<open>makeGotRTMPStreamHandler\<close>, in the three parts of its
  body. First the token-balance check, made only with a non-nil client: an error of
  \<^verbatim>\<open>TokenBalance\<close> and a balance below \<^verbatim>\<open>BroadcastPrice\<close> (\<^verbatim>\<open>b.Cmp(BroadcastPrice) < 0\<close>)
  both return \<^verbatim>\<open>ErrBroadcast\<close>.
\<close>

definition checkTokenBalance :: "server \<Rightarrow> error option \<times> server" where
  "checkTokenBalance s =
     (case Eth s of
        None \<Rightarrow> (None, s)
      | Some e \<Rightarrow>
          (let (b, e1) = TokenBalance e; s1 = s\<lparr>Eth := Some e1\<rparr>
           in case b of
                None \<Rightarrow> (Some ErrBroadcast, s1)
              | Some bal \<Rightarrow>
                  if bal < BroadcastPrice s then (Some ErrBroadcast, s1) else (None, s1)))"

text \<open>
  Then, once the RTMP stream is in the registry: the HLS stream is created under the id
  \<open>hlsID\<close> minted by \<^verbatim>\<open>core.MakeStreamID(identity, core.RandomVideoID(), "")\<close>, the
  two goroutines are started, the HLS stream is stored (the result of that
  \<^verbatim>\<open>AddStream\<close> is dropped) and remembered under the RTMP id, and with a non-nil client
  the job is created.
\<close>

definition startBroadcast :: "string \<Rightarrow> server \<Rightarrow> VideoStream \<Rightarrow> error option \<times> server" where
  "startBroadcast hlsID s rtmpStrm =
     (let (hlsStrm, db2) = AddNewStream (StreamDB s) hlsID HLS;
          tasks = spawned s @
            [SegmentRTMPToHLS (StreamID rtmpStrm) (StreamID hlsStrm),
             BroadcastToNetwork (StreamID hlsStrm)];
          (_, db3) = AddStream db2 (StreamID hlsStrm) hlsStrm;
          s2 = s\<lparr>StreamDB := db3, spawned := tasks,
                 broadcastRtmpToHLSMap :=
                   (broadcastRtmpToHLSMap s)(StreamID rtmpStrm \<mapsto> StreamID hlsStrm)\<rparr>
      in case Eth s2 of
           None \<Rightarrow> (None, s2)
         | Some e \<Rightarrow> (let (r, e') = createJobWithRetry e in (r, s2\<lparr>Eth := Some e'\<rparr>)))"

text \<open>
  The whole handler: the balance check, the look-up of the RTMP stream's id
  (\<^verbatim>\<open>ErrAlreadyExists\<close> when the registry has it), its registration
  (\<^verbatim>\<open>ErrRTMPPublish\<close> when \<^verbatim>\<open>AddStream\<close> fails), and the rest. The result is the
  returned error (\<open>None\<close> for nil) and the server afterwards.
\<close>

definition gotRTMPStreamHandler :: "string \<Rightarrow> server \<Rightarrow> VideoStream \<Rightarrow> error option \<times> server" where
  "gotRTMPStreamHandler hlsID s rtmpStrm =
     (case checkTokenBalance s of
        (Some err, s1) \<Rightarrow> (Some err, s1)
      | (None, s1) \<Rightarrow>
          if GetStream (StreamDB s1) (StreamID rtmpStrm) \<noteq> None then (Some ErrAlreadyExists, s1)
          else
            (case AddStream (StreamDB s1) (StreamID rtmpStrm) rtmpStrm of
               (Some _, db1) \<Rightarrow> (Some ErrRTMPPublish, s1\<lparr>StreamDB := db1\<rparr>)
             | (None, db1) \<Rightarrow> startBroadcast hlsID (s1\<lparr>StreamDB := db1\<rparr>) rtmpStrm))"

text \<open>
  Whether the balance check lets a publish through: no client, or a balance that is read
  and is not below the price.
\<close>

definition balance_ok :: "server \<Rightarrow> bool" where
  "balance_ok s =
     (case Eth s of
        None \<Rightarrow> True
      | Some e \<Rightarrow>
          (case fst (TokenBalance e) of None \<Rightarrow> False | Some bal \<Rightarrow> BroadcastPrice s \<le> bal))"

text \<open>Concrete inputs: a server with nothing registered and the default price, and clients.\<close>

definition emptyServer :: "eth_client option \<Rightarrow> server" where
  "emptyServer e = \<lparr>Eth = e, StreamDB = Map.empty, broadcastRtmpToHLSMap = Map.empty,
     BroadcastPrice = 150, spawned = []\<rparr>"

definition newStream :: "string \<Rightarrow> VideoFormat \<Rightarrow> VideoStream" where
  "newStream sid fmt = \<lparr>StreamID = sid, Format = fmt, written = []\<rparr>"

definition scriptedClient :: "int option list \<Rightarrow> tx option list \<Rightarrow> receipt option list \<Rightarrow> bool list \<Rightarrow> eth_client" where
  "scriptedClient bs js ms rs = \<lparr>balance_replies = bs, job_replies = js, mined_replies = ms,
     round_replies = rs, calls = []\<rparr>"

subsection \<open>The segmenter goroutine\<close>

text \<open>
  The goroutine started by the handler runs \<^verbatim>\<open>LPMS.SegmentRTMPToHLS\<close> and, when that
  returns a non-nil error, writes \<^verbatim>\<open>stream.HLSSegment{EOF: true}\<close> to the HLS stream.
  The segmenter and the stream belong to the media framework: what the segmenter wrote
  (\<open>segs\<close>) and returned (\<open>segErr\<close>, \<open>None\<close> for nil), and the error of the final write
  (\<open>writeErr\<close>), are arguments. The result is the stream, the segments the goroutine
  itself tried to write, and the log lines.
\<close>

definition WriteHLSSegmentToStream :: "string option \<Rightarrow> VideoStream \<Rightarrow> HLSSegment \<Rightarrow> string option \<times> VideoStream" where
  "WriteHLSSegmentToStream writeErr strm seg =
     (case writeErr of
        None \<Rightarrow> (None, strm\<lparr>written := written strm @ [seg]\<rparr>)
      | Some e \<Rightarrow> (Some e, strm))"

definition segmenterTask :: "HLSSegment list \<Rightarrow> string option \<Rightarrow> string option \<Rightarrow> VideoStream \<Rightarrow> VideoStream \<times> HLSSegment list \<times> string list" where
  "segmenterTask segs segErr writeErr hlsStrm =
     (let strm1 = hlsStrm\<lparr>written := written hlsStrm @ segs\<rparr>
      in case segErr of
           None \<Rightarrow> (strm1, [], [])
         | Some _ \<Rightarrow>
             (let (err, strm2) = WriteHLSSegmentToStream writeErr strm1 eofSegment
              in case err of
                   None \<Rightarrow> (strm2, [eofSegment], [''Error in segmenter, broadcasting finish message''])
                 | Some _ \<Rightarrow>
                     (strm2, [eofSegment],
                      [''Error in segmenter, broadcasting finish message'',
                       ''Error broadcasting finish''])))"

text \<open>A server on which the stream \<open>node1|abc\<close> is being published already.\<close>

definition busyServer :: "eth_client option \<Rightarrow> server" where
  "busyServer e = (emptyServer e)\<lparr>StreamDB := [''node1|abc'' \<mapsto> newStream ''node1|abc'' RTMP],
      broadcastRtmpToHLSMap := [''node1|abc'' \<mapsto> ''node1|hls'']\<rparr>"

text \<open>
  A client whose first job transaction is mined with all of its gas used and whose
  second is not, with a round wait that succeeds in between.
\<close>

definition retryClient :: eth_client where
  "retryClient = scriptedClient [Some 200] [Some \<lparr>Hash = 1, Gas = 100\<rparr>, Some \<lparr>Hash = 2, Gas = 100\<rparr>]
     [Some \<lparr>GasUsed = 100\<rparr>, Some \<lparr>GasUsed = 60\<rparr>] [True]"

subsection \<open>The media-playlist subscription callback\<close>

text \<open>
  Modelled from the spec: the HLS buffer of the media framework is not among the
  sources. Section 4.2 of the specification gives \<^verbatim>\<open>write_segment(seq_no, name, duration, data)\<close>
  and \<^verbatim>\<open>write_eof()\<close>; the buffer is the list of what was written and the end-of-stream
  mark. Both are methods on a pointer that read and write the buffer's fields, so a
  nil receiver is a nil dereference.
\<close>

record HLSBuffer =
  buffered :: "(64 word \<times> string \<times> real \<times> 8 word list) list"
  atEOF :: bool

text \<open>
  The callback closes over the handler's variable \<^verbatim>\<open>buf\<close>, a pointer, and over the
  subscriber. Buffers live at addresses; the registry maps stream ids to addresses
  (\<^verbatim>\<open>GetHLSBuffer\<close>, \<^verbatim>\<open>AddNewHLSBuffer\<close>); \<open>buf\<close> is \<open>None\<close> for nil.
\<close>

record playlist_state =
  heap :: "nat \<rightharpoonup> HLSBuffer"
  nextAddr :: nat
  hlsBuffers :: "string \<rightharpoonup> nat"
  buf :: "nat option"
  subscribed :: bool

definition GetHLSBuffer :: "playlist_state \<Rightarrow> string \<Rightarrow> nat option" where
  "GetHLSBuffer st strmID = hlsBuffers st strmID"

definition AddNewHLSBuffer :: "playlist_state \<Rightarrow> string \<Rightarrow> nat \<times> playlist_state" where
  "AddNewHLSBuffer st strmID =
     (nextAddr st,
      st\<lparr>heap := (heap st)(nextAddr st \<mapsto> \<lparr>buffered = [], atEOF = False\<rparr>),
         nextAddr := Suc (nextAddr st),
         hlsBuffers := (hlsBuffers st)(strmID \<mapsto> nextAddr st)\<rparr>)"

definition WriteEOF :: "nat option \<Rightarrow> playlist_state \<Rightarrow> go_panic + playlist_state" where
  "WriteEOF b st =
     (case b of
        None \<Rightarrow> Inl NilDereference
      | Some a \<Rightarrow>
          (case heap st a of
             None \<Rightarrow> Inl NilDereference
           | Some hb \<Rightarrow> Inr (st\<lparr>heap := (heap st)(a \<mapsto> hb\<lparr>atEOF := True\<rparr>)\<rparr>)))"

definition WriteSegment :: "nat option \<Rightarrow> HLSSegment \<Rightarrow> playlist_state \<Rightarrow> go_panic + playlist_state" where
  "WriteSegment b seg st =
     (case b of
        None \<Rightarrow> Inl NilDereference
      | Some a \<Rightarrow>
          (case heap st a of
             None \<Rightarrow> Inl NilDereference
           | Some hb \<Rightarrow>
               Inr (st\<lparr>heap := (heap st)(a \<mapsto>
                     hb\<lparr>buffered := buffered hb @ [(SeqNo seg, Name seg, Duration seg, Data seg)]\<rparr>)\<rparr>)))"

text \<open>
  The media-playlist handler up to the registration of the callback: it looks the buffer
  up, and only when there is none (\<^verbatim>\<open>buf == nil\<close>) it subscribes, so the callback starts
  with a nil \<^verbatim>\<open>buf\<close>.
\<close>

definition subscribeIfNoBuffer :: "playlist_state \<Rightarrow> string \<Rightarrow> playlist_state" where
  "subscribeIfNoBuffer st strmID =
     (let st1 = st\<lparr>buf := GetHLSBuffer st strmID\<rparr>
      in if buf st1 = None then st1\<lparr>subscribed := True\<rparr> else st1)"

text \<open>
  The callback given to \<^verbatim>\<open>sub.Subscribe\<close>, called with \<^verbatim>\<open>(seqNo, data, eof)\<close>. On
  \<^verbatim>\<open>eof\<close> it calls \<^verbatim>\<open>buf.WriteEOF()\<close> and unsubscribes, and then goes on like for any
  message: it decodes \<^verbatim>\<open>data\<close> (\<open>dec\<close> stands for the gob decoder of the Go library;
  on a decoding error the segment stays at its zero value and the error is logged),
  creates the buffer when \<^verbatim>\<open>buf\<close> is nil, and writes the segment.
\<close>

definition subscribeCallback :: "(8 word list \<Rightarrow> HLSSegment option) \<Rightarrow> string \<Rightarrow> playlist_state \<Rightarrow> 64 word \<times> 8 word list \<times> bool \<Rightarrow> go_panic + playlist_state" where
  "subscribeCallback dec strmID st msg =
     (case msg of (seqNo, bytes, eof) \<Rightarrow>
        (case (if eof
               then (case WriteEOF (buf st) st of
                       Inl p \<Rightarrow> Inl p
                     | Inr st1 \<Rightarrow> Inr (st1\<lparr>subscribed := False\<rparr>))
               else Inr st) of
           Inl p \<Rightarrow> Inl p
         | Inr st1 \<Rightarrow>
             (let seg = (case dec bytes of None \<Rightarrow> zeroSegment | Some s \<Rightarrow> s);
                  st2 = (if buf st1 = None
                         then (let (a, st') = AddNewHLSBuffer st1 strmID in st'\<lparr>buf := Some a\<rparr>)
                         else st1)
              in WriteSegment (buf st2) seg st2)))"

definition noBuffers :: playlist_state where
  "noBuffers = \<lparr>heap = Map.empty, nextAddr = 0, hlsBuffers = Map.empty, buf = None,
     subscribed = False\<rparr>"

section \<open>discovery: on-chain transcoders as database records\<close>

text \<open>
  \<^verbatim>\<open>lpTypes.Transcoder\<close>, by the fields \<^verbatim>\<open>ethOrchToDBOrch\<close> reads. The two rounds are
  \<^verbatim>\<open>*big.Int\<close>: \<open>None\<close> is a nil pointer. \<open>Address\<close> holds the address as
  \<^verbatim>\<open>Address.String()\<close> renders it. \<^verbatim>\<open>common.DBOrch\<close> has int64 rounds and a price
  that the function leaves at zero.
\<close>

record Transcoder =
  ServiceURI :: string
  Address :: string
  ActivationRound :: "int option"
  DeactivationRound :: "int option"

record DBOrch =
  db_ServiceURI :: string
  db_EthereumAddr :: string
  db_PricePerPixel :: "64 word"
  db_ActivationRound :: "64 word"
  db_DeactivationRound :: "64 word"

text \<open>
  \<^verbatim>\<open>(*big.Int).Int64\<close>: the low 64 bits of the magnitude, negated for a negative
  number, which is the number itself modulo \<open>2^64\<close>, read as signed.
\<close>

definition Int64 :: "int \<Rightarrow> 64 word" where
  "Int64 x = (if x < 0 then - word_of_int \<bar>x\<bar> else word_of_int \<bar>x\<bar>)"

text \<open>
  \<^verbatim>\<open>ethOrchToDBOrch\<close>: nil for a nil record; otherwise the struct literal is built and
  returned, its fields evaluated in order, and \<^verbatim>\<open>Int64\<close> called on a nil round is a nil
  dereference. The statements that follow the \<^verbatim>\<open>return\<close> in the source (two nil checks
  on the rounds) are never executed and have no counterpart here.
\<close>

definition ethOrchToDBOrch :: "Transcoder option \<Rightarrow> go_panic + DBOrch option" where
  "ethOrchToDBOrch orch =
     (case orch of
        None \<Rightarrow> Inr None
      | Some t \<Rightarrow>
          (case ActivationRound t of
             None \<Rightarrow> Inl NilDereference
           | Some a \<Rightarrow>
               (case DeactivationRound t of
                  None \<Rightarrow> Inl NilDereference
                | Some d \<Rightarrow>
                    Inr (Some \<lparr>db_ServiceURI = ServiceURI t, db_EthereumAddr = Address t,
                               db_PricePerPixel = 0, db_ActivationRound = Int64 a,
                               db_DeactivationRound = Int64 d\<rparr>))))"

definition orchWithRounds :: "int option \<Rightarrow> int option \<Rightarrow> Transcoder" where
  "orchWithRounds a d = \<lparr>ServiceURI = ''https://orch1:8935'', Address = ''0x01'',
     ActivationRound = a, DeactivationRound = d\<rparr>"

section \<open>monitor: the moving average\<close>

text \<open>
  Times are nanoseconds on the time line (an unbounded integer); a duration is a number
  of nanoseconds. \<^verbatim>\<open>Time.Sub\<close> saturates at the ends of int64. The zero \<^verbatim>\<open>time.Time\<close>
  is the first instant of year 1. A float64 value is modelled by the real number it
  stands for, and float arithmetic by exact arithmetic.
\<close>

definition second :: int where
  "second = 1000000000"

definition zeroTime :: int where
  "zeroTime = - 62135596800 * second"

definition Sub :: "int \<Rightarrow> int \<Rightarrow> int" where
  "Sub t u =
     (let d = t - u
      in if d < - (2 ^ 63) then - (2 ^ 63) else if 2 ^ 63 - 1 < d then 2 ^ 63 - 1 else d)"

record timeValue =
  tv_time :: int
  tv_value :: real

definition zeroTimeValue :: timeValue where
  "zeroTimeValue = \<lparr>tv_time = zeroTime, tv_value = 0\<rparr>"

record ringArray =
  data :: "timeValue list"
  head :: int
  tail :: int

record movingAverage =
  windowSize :: int
  ma_data :: ringArray

definition newRingArray :: "nat \<Rightarrow> ringArray" where
  "newRingArray n = \<lparr>data = replicate n zeroTimeValue, head = - 1, tail = - 1\<rparr>"

definition newMovingAverage :: "int \<Rightarrow> nat \<Rightarrow> movingAverage" where
  "newMovingAverage w dataSize = \<lparr>windowSize = w, ma_data = newRingArray dataSize\<rparr>"

text \<open>
  A slice expression \<^verbatim>\<open>xs[lo:hi]\<close> (capacity and length coincide for these slices)
  and the built-in \<^verbatim>\<open>copy\<close>, which overwrites the first \<open>min (len dst) (len src)\<close>
  elements of the destination.
\<close>

definition subslice :: "'a list \<Rightarrow> int \<Rightarrow> int \<Rightarrow> go_panic + 'a list" where
  "subslice xs lo hi =
     (if 0 \<le> lo \<and> lo \<le> hi \<and> hi \<le> int (length xs)
      then Inr (take (nat (hi - lo)) (drop (nat lo) xs))
      else Inl IndexOutOfRange)"

definition copy :: "'a list \<Rightarrow> 'a list \<Rightarrow> 'a list" where
  "copy dst src =
     (let n = min (length dst) (length src) in take n src @ drop n dst)"

text \<open>
  The part of \<^verbatim>\<open>push\<close> that doubles a full ring: the elements from tail to head move
  to the front of the new array.
\<close>

definition grow :: "ringArray \<Rightarrow> go_panic + ringArray" where
  "grow ra =
     (let n = int (length (data ra));
          newData = replicate (2 * length (data ra)) zeroTimeValue
      in if tail ra < head ra
         then (case subslice (data ra) (tail ra) (head ra + 1) of
                 Inl p \<Rightarrow> Inl p
               | Inr src \<Rightarrow>
                   Inr (ra\<lparr>data := copy newData src, head := head ra - tail ra, tail := 0\<rparr>))
         else (case subslice (data ra) (tail ra) n of
                 Inl p \<Rightarrow> Inl p
               | Inr src1 \<Rightarrow>
                   (let newData1 = copy newData src1
                    in case subslice newData1 (n - tail ra) (2 * n) of
                         Inl p \<Rightarrow> Inl p
                       | Inr dst \<Rightarrow>
                           (case subslice (data ra) 0 (head ra + 1) of
                              Inl p \<Rightarrow> Inl p
                            | Inr src2 \<Rightarrow>
                                Inr (ra\<lparr>data := take (nat (n - tail ra)) newData1 @ copy dst src2,
                                       head := n - tail ra + head ra, tail := 0\<rparr>)))))"

definition push :: "ringArray \<Rightarrow> int \<Rightarrow> real \<Rightarrow> go_panic + ringArray" where
  "push ra t v =
     (if head ra = - 1 \<and> tail ra = - 1
      then (if data ra = [] then Inl IndexOutOfRange
            else Inr (ra\<lparr>head := 0, tail := 0,
                         data := (data ra)[0 := \<lparr>tv_time = t, tv_value = v\<rparr>]\<rparr>))
      else
        (let newHead = head ra + 1
         in case (if newHead = tail ra \<or> (newHead = int (length (data ra)) \<and> tail ra = 0)
                  then grow ra else Inr ra) of
              Inl p \<Rightarrow> Inl p
            | Inr ra1 \<Rightarrow>
                (let h = head ra1 + 1;
                     h' = (if h = int (length (data ra1)) then 0 else h)
                 in if h' < 0 \<or> int (length (data ra1)) \<le> h' then Inl IndexOutOfRange
                    else Inr (ra1\<lparr>head := h',
                                  data := (data ra1)[nat h' := \<lparr>tv_time = t, tv_value = v\<rparr>]\<rparr>))))"

definition pop :: "ringArray \<Rightarrow> go_panic + ringArray \<times> int \<times> real" where
  "pop ra =
     (if tail ra = - 1 then Inr (ra, zeroTime, 0)
      else if tail ra < 0 \<or> int (length (data ra)) \<le> tail ra then Inl IndexOutOfRange
      else
        (let tailVal = data ra ! nat (tail ra)
         in if tail ra = head ra
            then Inr (ra\<lparr>tail := - 1, head := - 1\<rparr>, tv_time tailVal, tv_value tailVal)
            else (let t = tail ra + 1;
                      t' = (if int (length (data ra)) \<le> t then 0 else t)
                  in Inr (ra\<lparr>tail := t'\<rparr>, tv_time tailVal, tv_value tailVal))))"

definition hasData :: "ringArray \<Rightarrow> bool" where
  "hasData ra = (head ra \<noteq> - 1 \<and> tail ra \<noteq> - 1)"

definition getTail :: "ringArray \<Rightarrow> go_panic + int \<times> real" where
  "getTail ra =
     (if tail ra \<noteq> - 1
      then (if tail ra < 0 \<or> int (length (data ra)) \<le> tail ra then Inl IndexOutOfRange
            else Inr (tv_time (data ra ! nat (tail ra)), tv_value (data ra ! nat (tail ra))))
      else Inr (zeroTime, 0))"

text \<open>
  The loop of \<^verbatim>\<open>average\<close>: from the tail, add the value at \<open>i\<close>, step \<open>i\<close> with
  wrap-around, and stop after adding the value at the head. It need not end when the
  head is outside the array: not returning is \<open>None\<close>. The stepped index is inside the
  array whenever \<open>i\<close> is.
\<close>

partial_function (option) average_loop :: "ringArray \<Rightarrow> int \<Rightarrow> real \<Rightarrow> real \<Rightarrow> (go_panic + real \<times> real) option" where
  "average_loop ra i acc num =
     (if i < 0 \<or> int (length (data ra)) \<le> i then Some (Inl IndexOutOfRange)
      else
        (let acc1 = acc + tv_value (data ra ! nat i);
             num1 = num + 1;
             i1 = (if i + 1 = int (length (data ra)) then 0 else i + 1)
         in if i1 = head ra
            then Some (Inr (acc1 + tv_value (data ra ! nat i1), num1 + 1))
            else average_loop ra i1 acc1 num1))"

definition average :: "ringArray \<Rightarrow> (go_panic + real) option" where
  "average ra =
     (if \<not> hasData ra then Some (Inr 0)
      else if head ra = tail ra
      then (if head ra < 0 \<or> int (length (data ra)) \<le> head ra then Some (Inl IndexOutOfRange)
            else Some (Inr (tv_value (data ra ! nat (head ra)))))
      else (case average_loop ra (tail ra) 0 0 of
              None \<Rightarrow> None
            | Some (Inl p) \<Rightarrow> Some (Inl p)
            | Some (Inr (acc, num)) \<Rightarrow> Some (Inr (acc / num))))"

text \<open>
  The loop of \<^verbatim>\<open>addSample\<close>: while the ring has data and its tail is at least the
  window old (\<^verbatim>\<open>now.Sub(tt) >= ma.windowSize\<close>), pop the tail.
\<close>

partial_function (option) dropOld :: "int \<Rightarrow> int \<Rightarrow> ringArray \<Rightarrow> (go_panic + ringArray) option" where
  "dropOld now w ra =
     (if hasData ra
      then (case getTail ra of
              Inl p \<Rightarrow> Some (Inl p)
            | Inr (tt, _) \<Rightarrow>
                if w \<le> Sub now tt
                then (case pop ra of
                        Inl p \<Rightarrow> Some (Inl p)
                      | Inr (ra', _) \<Rightarrow> dropOld now w ra')
                else Some (Inr ra))
      else Some (Inr ra))"

definition addSample :: "movingAverage \<Rightarrow> int \<Rightarrow> real \<Rightarrow> (go_panic + movingAverage \<times> real) option" where
  "addSample ma now val =
     (case dropOld now (windowSize ma) (ma_data ma) of
        None \<Rightarrow> None
      | Some (Inl p) \<Rightarrow> Some (Inl p)
      | Some (Inr ra) \<Rightarrow>
          (case push ra now val of
             Inl p \<Rightarrow> Some (Inl p)
           | Inr ra1 \<Rightarrow>
               (case average ra1 of
                  None \<Rightarrow> None
                | Some (Inl p) \<Rightarrow> Some (Inl p)
                | Some (Inr avg) \<Rightarrow> Some (Inr (ma\<lparr>ma_data := ra1\<rparr>, avg)))))"

declare average_loop.simps [code]

declare dropOld.simps [code]

text \<open>A run of \<^verbatim>\<open>addSample\<close> calls, with the value each call returned.\<close>

fun addSamples :: "movingAverage \<Rightarrow> (int \<times> real) list \<Rightarrow> (go_panic + movingAverage \<times> real list) option" where
  "addSamples ma [] = Some (Inr (ma, []))"
| "addSamples ma ((t, v) # rest) =
     (case addSample ma t v of
        None \<Rightarrow> None
      | Some (Inl p) \<Rightarrow> Some (Inl p)
      | Some (Inr (ma1, avg)) \<Rightarrow>
          (case addSamples ma1 rest of
             None \<Rightarrow> None
           | Some (Inl p) \<Rightarrow> Some (Inl p)
           | Some (Inr (ma2, avgs)) \<Rightarrow> Some (Inr (ma2, avg # avgs))))"

section \<open>monitor: the segments averager\<close>



record segmentCount =
  seqNo :: "64 word"
  emergedTime :: int
  emerged :: int
  transcoded :: int
  failed :: bool

record tryData =
  try_first :: int
  try_tries :: int

















text \<open>The values a run of \<^verbatim>\<open>addSample\<close> calls returned, without the final state.\<close>

definition returned :: "(go_panic + movingAverage \<times> real list) option \<Rightarrow> (go_panic + real list) option" where
  "returned r = map_option (map_sum id snd) r"

subsection \<open>What the moving average is stated against\<close>

text \<open>
  The indices a loop visits in a ring of \<open>n\<close> slots, from \<open>i\<close> to \<open>e\<close> with
  wrap-around.
\<close>

definition walk :: "int \<Rightarrow> int \<Rightarrow> int \<Rightarrow> int list" where
  "walk n i e = (if i \<le> e then [i..e] else [i..n - 1] @ [0..e])"

text \<open>
  The rings \<^verbatim>\<open>push\<close> works on without losing an element: at least two slots, and
  head and tail both \<open>-1\<close> (empty) or both inside the array. \<open>contents\<close> is the
  sequence of elements from the tail to the head, oldest first; \<open>ring_full\<close> is the
  test \<^verbatim>\<open>push\<close> makes before it doubles the array.
\<close>

definition ring_ok :: "ringArray \<Rightarrow> bool" where
  "ring_ok ra =
     (2 \<le> length (data ra) \<and>
      ((head ra = - 1 \<and> tail ra = - 1) \<or>
       (0 \<le> head ra \<and> head ra < int (length (data ra)) \<and>
        0 \<le> tail ra \<and> tail ra < int (length (data ra)))))"

definition contents :: "ringArray \<Rightarrow> timeValue list" where
  "contents ra =
     (if hasData ra
      then map (\<lambda>j. data ra ! nat j) (walk (int (length (data ra))) (tail ra) (head ra))
      else [])"

definition ring_full :: "ringArray \<Rightarrow> bool" where
  "ring_full ra =
     (head ra + 1 = tail ra \<or> (head ra + 1 = int (length (data ra)) \<and> tail ra = 0))"

definition mean :: "real list \<Rightarrow> real" where
  "mean xs = sum_list xs / real (length xs)"

definition sample_tv :: "int \<times> real \<Rightarrow> timeValue" where
  "sample_tv s = \<lparr>tv_time = fst s, tv_value = snd s\<rparr>"

text \<open>
  What the code returns: at a push at time \<open>now\<close>, a sample is in the window when its
  age \<^verbatim>\<open>now.Sub(t)\<close> is strictly less than the window size; \<open>expected w seen samples\<close>
  lists, for each sample pushed after the samples \<open>seen\<close>, the mean of the samples so
  far that are in the window.
\<close>

definition in_window :: "int \<Rightarrow> int \<Rightarrow> int \<times> real \<Rightarrow> bool" where
  "in_window w now s = (Sub now (fst s) < w)"

fun expected :: "int \<Rightarrow> (int \<times> real) list \<Rightarrow> (int \<times> real) list \<Rightarrow> real list" where
  "expected w seen [] = []"
| "expected w seen (s # rest) =
     mean (map snd (filter (in_window w (fst s)) (seen @ [s]))) # expected w (seen @ [s]) rest"

text \<open>
  What the specification says is returned: the mean of the samples whose timestamps lie in
  the closed interval from \<open>now - window\<close> to \<open>now\<close>.
\<close>

definition in_closed_window :: "int \<Rightarrow> int \<Rightarrow> int \<times> real \<Rightarrow> bool" where
  "in_closed_window w now s = (now - w \<le> fst s \<and> fst s \<le> now)"

fun claimed :: "int \<Rightarrow> (int \<times> real) list \<Rightarrow> (int \<times> real) list \<Rightarrow> real list" where
  "claimed w seen [] = []"
| "claimed w seen (s # rest) =
     mean (map snd (filter (in_closed_window w (fst s)) (seen @ [s]))) # claimed w (seen @ [s]) rest"

text \<open>The samples of the specification's scenario, with \<open>t0 = 0\<close>.\<close>

definition scenarioSamples :: "(int \<times> real) list" where
  "scenarioSamples = [(0, 1), (30 * second, 3), (90 * second, 5)]"

subsection \<open>What the success rate is stated against\<close>












section \<open>Properties of the request-path helpers\<close>

lemma id_class_not_slash: "id_class c \<Longrightarrow> c \<noteq> CHR ''/''"
  by (auto simp: id_class_def is_alpha_def is_digit_def)

lemma match_star_run:
  "\<forall>c\<in>set run. id_class c \<Longrightarrow> rest = [] \<or> \<not> id_class (hd rest) \<Longrightarrow> match_star (run @ rest) = run"
  by (induction run) (cases rest; auto)+

lemma match_here_lit: "match_here (stream_lit @ x) = Some (stream_lit @ match_star x)"
  by (simp add: match_here_def)

lemma FindString_here: "match_here s = Some m \<Longrightarrow> FindString s = m"
  by (cases s) auto

lemma FindString_skip:
  "\<forall>i<length pre. \<not> prefix stream_lit (drop i (pre @ s)) \<Longrightarrow> FindString (pre @ s) = FindString s"
proof (induction pre)
  case Nil
  then show ?case by simp
next
  case (Cons a pre)
  from Cons.prems have h0: "\<not> prefix stream_lit ((a # pre) @ s)" by force
  have hi: "\<forall>i<length pre. \<not> prefix stream_lit (drop i (pre @ s))"
  proof (intro allI impI)
    fix i assume "i < length pre"
    then have "Suc i < length (a # pre)" by simp
    with Cons.prems have "\<not> prefix stream_lit (drop (Suc i) ((a # pre) @ s))" by blast
    then show "\<not> prefix stream_lit (drop i (pre @ s))" by simp
  qed
  from h0 have "match_here ((a # pre) @ s) = None" by (simp add: match_here_def)
  then have "FindString ((a # pre) @ s) = FindString (pre @ s)" by simp
  with Cons.IH [OF hi] show ?case by simp
qed

lemma Replace_no_slash: "CHR ''/'' \<notin> set s \<Longrightarrow> Replace s stream_lit [] = s"
proof (induction s)
  case Nil
  then show ?case by (subst Replace.simps) (simp add: stream_lit_def)
next
  case (Cons a s)
  then have "\<not> prefix stream_lit (a # s)" by (auto simp: stream_lit_def)
  with Cons show ?case by (subst Replace.simps) (simp add: stream_lit_def)
qed

lemma Replace_match:
  assumes "\<forall>c\<in>set run. id_class c"
  shows "Replace (stream_lit @ run) stream_lit [] = run"
proof -
  from assms have "CHR ''/'' \<notin> set run" using id_class_not_slash by blast
  then have "Replace run stream_lit [] = run" by (rule Replace_no_slash)
  then show ?thesis by (subst Replace.simps) (simp add: stream_lit_def)
qed

lemma match_star_class: "list_all id_class (match_star s)"
  by (induction s) auto

lemma FindString_shape: "FindString p = [] \<or> (\<exists>x. FindString p = stream_lit @ match_star x)"
  by (induction p) (auto simp: match_here_def split: option.splits)

lemma FindString_none:
  "\<forall>i\<le>length q. \<not> prefix stream_lit (drop i q) \<Longrightarrow> FindString q = []"
proof (induction q)
  case Nil
  then show ?case by (simp add: match_here_def)
next
  case (Cons a q)
  from Cons.prems have h0: "\<not> prefix stream_lit (a # q)" by force
  have "\<forall>i\<le>length q. \<not> prefix stream_lit (drop i q)"
  proof (intro allI impI)
    fix i assume "i \<le> length q"
    then have "Suc i \<le> length (a # q)" by simp
    with Cons.prems have "\<not> prefix stream_lit (drop (Suc i) (a # q))" by blast
    then show "\<not> prefix stream_lit (drop i q)" by simp
  qed
  with Cons.IH have "FindString q = []" by simp
  with h0 show ?case by (simp add: match_here_def)
qed

lemma parseStreamID_class: "list_all id_class (parseStreamID q)"
proof -
  from FindString_shape [of q] show ?thesis
  proof
    assume "FindString q = []"
    then show ?thesis by (simp add: parseStreamID_def)
  next
    assume "\<exists>x. FindString q = stream_lit @ match_star x"
    then obtain x where x: "FindString q = stream_lit @ match_star x" by blast
    have "\<forall>c\<in>set (match_star x). id_class c"
      using match_star_class [of x] by (simp add: list_all_iff)
    from Replace_match [OF this] x match_star_class [of x] show ?thesis
      by (simp add: parseStreamID_def Let_def)
  qed
qed

lemma bar_not_class: "\<not> id_class (CHR ''|'')"
  by (simp add: id_class_def is_alpha_def is_digit_def)

text \<open>
  Claim C10. Write the request path as \<open>pre @ ''/stream/'' @ run @ rest\<close>, where no
  \<open>''/stream/''\<close> starts inside \<open>pre\<close> (so this is the first one), \<open>run\<close> consists of
  ASCII letters and digits, and \<open>rest\<close> is empty or starts with any other character.
  Then \<open>parseStreamID\<close> returns exactly \<open>run\<close>: the maximal run of letters and digits
  after the first \<open>''/stream/''\<close>. For every path \<open>q\<close>, the result is empty when \<open>q\<close> has
  no \<open>''/stream/''\<close>, and in any case holds letters and digits only; the bar of a
  stream id is no such character, so an id with a bar is cut at its first bar.
\<close>

theorem parseStreamID_maximal_run:
  assumes first: "\<forall>i<length pre. \<not> prefix stream_lit (drop i (pre @ stream_lit @ run @ rest))"
    and run: "\<forall>c\<in>set run. id_class c"
    and stop: "rest = [] \<or> \<not> id_class (hd rest)"
  shows "parseStreamID (pre @ stream_lit @ run @ rest) = run \<and>
         ((\<forall>i\<le>length q. \<not> prefix stream_lit (drop i q)) \<longrightarrow> parseStreamID q = []) \<and>
         list_all id_class (parseStreamID q) \<and> CHR ''|'' \<notin> set (parseStreamID q)"
proof -
  have "FindString (pre @ stream_lit @ run @ rest) = FindString (stream_lit @ run @ rest)"
    using first by (rule FindString_skip)
  also have "\<dots> = stream_lit @ match_star (run @ rest)"
    by (rule FindString_here) (rule match_here_lit)
  also have "\<dots> = stream_lit @ run"
    using run stop by (simp add: match_star_run)
  finally have m: "FindString (pre @ stream_lit @ run @ rest) = stream_lit @ run" .
  have "stream_lit @ run \<noteq> []" by (simp add: stream_lit_def)
  with m have 1: "parseStreamID (pre @ stream_lit @ run @ rest) = run"
    by (simp add: parseStreamID_def Let_def Replace_match [OF run])
  have 2: "(\<forall>i\<le>length q. \<not> prefix stream_lit (drop i q)) \<longrightarrow> parseStreamID q = []"
    by (simp add: FindString_none parseStreamID_def)
  have 3: "list_all id_class (parseStreamID q)" by (rule parseStreamID_class)
  with bar_not_class have 4: "CHR ''|'' \<notin> set (parseStreamID q)"
    by (auto simp: list_all_iff)
  from 1 2 3 4 show ?thesis by blast
qed

theorem parseStreamID_maximal_run_witness:
  "list_all id_class ''node1'' \<and> \<not> id_class (CHR ''|'') \<and>
   parseStreamID ''/hls/stream/node1|abc|P240p30fps.m3u8'' = ''node1''"
proof -
  have first: "\<forall>i<length ''/hls''. \<not> prefix stream_lit
      (drop i (''/hls'' @ stream_lit @ ''node1'' @ ''|abc|P240p30fps.m3u8''))"
    by (simp add: stream_lit_def All_less_Suc numeral_eq_Suc)
  have run: "\<forall>c\<in>set ''node1''. id_class c"
    by (simp add: id_class_def is_alpha_def is_digit_def)
  have stop: "''|abc|P240p30fps.m3u8'' = [] \<or> \<not> id_class (hd ''|abc|P240p30fps.m3u8'')"
    by (simp add: id_class_def is_alpha_def is_digit_def)
  from parseStreamID_maximal_run [OF first run stop, of "[]"] run stop show ?thesis
    by (simp add: stream_lit_def)
qed

section \<open>Properties of the publish handler\<close>

lemma checkTokenBalance_frame:
  "StreamDB (snd (checkTokenBalance s)) = StreamDB s"
  "broadcastRtmpToHLSMap (snd (checkTokenBalance s)) = broadcastRtmpToHLSMap s"
  "spawned (snd (checkTokenBalance s)) = spawned s"
  "BroadcastPrice (snd (checkTokenBalance s)) = BroadcastPrice s"
  by (simp_all add: checkTokenBalance_def Let_def split: option.splits prod.splits)

lemma checkTokenBalance_fst:
  "fst (checkTokenBalance s) = (if balance_ok s then None else Some ErrBroadcast)"
  by (auto simp: checkTokenBalance_def balance_ok_def Let_def split: option.splits prod.splits)

lemma checkTokenBalance_Eth:
  "Eth (snd (checkTokenBalance s)) = map_option (\<lambda>e. snd (TokenBalance e)) (Eth s)"
  by (simp add: checkTokenBalance_def Let_def split: option.splits prod.splits)

lemma handler_gate_closed:
  "\<not> balance_ok s \<Longrightarrow>
   gotRTMPStreamHandler hlsID s rtmpStrm = (Some ErrBroadcast, snd (checkTokenBalance s))"
  using checkTokenBalance_fst [of s]
  by (cases "checkTokenBalance s") (simp add: gotRTMPStreamHandler_def)

lemma handler_gate_open:
  "balance_ok s \<Longrightarrow> gotRTMPStreamHandler hlsID s rtmpStrm =
     (let s1 = snd (checkTokenBalance s)
      in if GetStream (StreamDB s) (StreamID rtmpStrm) \<noteq> None then (Some ErrAlreadyExists, s1)
         else (case AddStream (StreamDB s) (StreamID rtmpStrm) rtmpStrm of
                 (Some _, db1) \<Rightarrow> (Some ErrRTMPPublish, s1\<lparr>StreamDB := db1\<rparr>)
               | (None, db1) \<Rightarrow> startBroadcast hlsID (s1\<lparr>StreamDB := db1\<rparr>) rtmpStrm))"
  using checkTokenBalance_fst [of s] checkTokenBalance_frame(1) [of s]
  by (cases "checkTokenBalance s") (simp add: gotRTMPStreamHandler_def Let_def)

text \<open>
  Claim C1, as the code has it. With a client configured and a token balance strictly
  below the broadcast price, the handler returns \<open>ErrBroadcast\<close> (the source has no
  insufficient-balance error value), and the attempt leaves the stream registry, the
  RTMP-to-HLS map and the started goroutines as they were.
\<close>

theorem low_balance_ErrBroadcast:
  assumes "Eth s = Some e" and "fst (TokenBalance e) = Some bal" and "bal < BroadcastPrice s"
  shows "fst (gotRTMPStreamHandler hlsID s rtmpStrm) = Some ErrBroadcast \<and>
         StreamDB (snd (gotRTMPStreamHandler hlsID s rtmpStrm)) = StreamDB s \<and>
         broadcastRtmpToHLSMap (snd (gotRTMPStreamHandler hlsID s rtmpStrm)) = broadcastRtmpToHLSMap s \<and>
         spawned (snd (gotRTMPStreamHandler hlsID s rtmpStrm)) = spawned s"
proof -
  from assms have "\<not> balance_ok s" by (simp add: balance_ok_def)
  then show ?thesis by (simp add: handler_gate_closed checkTokenBalance_frame)
qed

theorem low_balance_ErrBroadcast_witness:
  "fst (gotRTMPStreamHandler ''node1|hls'' (emptyServer (Some (scriptedClient [Some 149] [] [] [])))
         (newStream ''node1|abc'' RTMP)) = Some ErrBroadcast \<and>
   StreamDB (snd (gotRTMPStreamHandler ''node1|hls'' (emptyServer (Some (scriptedClient [Some 149] [] [] [])))
         (newStream ''node1|abc'' RTMP))) ''node1|abc'' = None"
  using low_balance_ErrBroadcast [of "emptyServer (Some (scriptedClient [Some 149] [] [] []))"
      "scriptedClient [Some 149] [] [] []" 149 "''node1|hls''" "newStream ''node1|abc'' RTMP"]
  by (simp add: emptyServer_def scriptedClient_def TokenBalance_def)

text \<open>
  The claim as the specification words it fails: with balance 149 and price 150 the
  error returned is not \<open>InsufficientBalance\<close>.
\<close>

theorem low_balance_not_InsufficientBalance:
  "fst (gotRTMPStreamHandler ''node1|hls'' (emptyServer (Some (scriptedClient [Some 149] [] [] [])))
         (newStream ''node1|abc'' RTMP)) \<noteq> Some InsufficientBalance"
  by (simp add: gotRTMPStreamHandler_def checkTokenBalance_def emptyServer_def scriptedClient_def
      TokenBalance_def)

text \<open>
  Claim C7, as the code has it. When the id of the published stream is already in the
  registry, the handler fails and leaves the registry, the RTMP-to-HLS map and the
  started goroutines untouched. The error is \<open>ErrAlreadyExists\<close> when the balance check
  lets the publish through (no client, or a balance not below the price); with a client
  whose balance check fails the handler has already returned \<open>ErrBroadcast\<close>.
\<close>

theorem duplicate_publish:
  assumes "GetStream (StreamDB s) (StreamID rtmpStrm) = Some old"
  shows "fst (gotRTMPStreamHandler hlsID s rtmpStrm) =
           (if balance_ok s then Some ErrAlreadyExists else Some ErrBroadcast) \<and>
         StreamDB (snd (gotRTMPStreamHandler hlsID s rtmpStrm)) = StreamDB s \<and>
         broadcastRtmpToHLSMap (snd (gotRTMPStreamHandler hlsID s rtmpStrm)) = broadcastRtmpToHLSMap s \<and>
         spawned (snd (gotRTMPStreamHandler hlsID s rtmpStrm)) = spawned s"
proof (cases "balance_ok s")
  case True
  with assms show ?thesis by (simp add: handler_gate_open checkTokenBalance_frame)
next
  case False
  then show ?thesis by (simp add: handler_gate_closed checkTokenBalance_frame)
qed

theorem duplicate_publish_witness:
  "fst (gotRTMPStreamHandler ''node1|xyz'' (busyServer None) (newStream ''node1|abc'' RTMP))
     = Some ErrAlreadyExists \<and>
   StreamDB (snd (gotRTMPStreamHandler ''node1|xyz'' (busyServer None) (newStream ''node1|abc'' RTMP)))
     = StreamDB (busyServer None)"
  using duplicate_publish [of "busyServer None" "newStream ''node1|abc'' RTMP"
      "newStream ''node1|abc'' RTMP" "''node1|xyz''"]
  by (simp add: busyServer_def emptyServer_def newStream_def GetStream_def balance_ok_def)

text \<open>
  The claim as worded fails: a second publish of \<open>node1|abc\<close> on a node whose client
  reports balance 149 against price 150 does not fail with \<open>ErrAlreadyExists\<close>.
\<close>

theorem duplicate_publish_low_balance:
  "fst (gotRTMPStreamHandler ''node1|xyz'' (busyServer (Some (scriptedClient [Some 149] [] [] [])))
         (newStream ''node1|abc'' RTMP)) \<noteq> Some ErrAlreadyExists"
  by (simp add: gotRTMPStreamHandler_def checkTokenBalance_def busyServer_def emptyServer_def
      scriptedClient_def TokenBalance_def)

subsection \<open>Job creation\<close>

lemma Job_calls: "calls (snd (Job e)) = calls e @ [CallJob]"
  by (simp add: Job_def split: list.splits)

lemma WaitForMinedTx_calls: "calls (snd (WaitForMinedTx e)) = calls e @ [CallWaitForMinedTx]"
  by (simp add: WaitForMinedTx_def split: list.splits)

lemma WaitUntilNextRound_calls:
  "calls (snd (WaitUntilNextRound e)) = calls e @ [CallWaitUntilNextRound]"
  by (simp add: WaitUntilNextRound_def split: list.splits)

lemma TokenBalance_calls: "calls (snd (TokenBalance e)) = calls e @ [CallTokenBalance]"
  by (simp add: TokenBalance_def split: list.splits)

lemma createBroadcastJob_calls:
  "\<exists>cs. calls (snd (createBroadcastJob e)) = calls e @ CallCheckRoundAndInit # cs \<and>
        CallCheckRoundAndInit \<notin> set cs \<and> CallWaitUntilNextRound \<notin> set cs"
proof (cases "fst (Job (CheckRoundAndInit e))")
  case None
  then show ?thesis
    by (cases "Job (CheckRoundAndInit e)")
       (use Job_calls [of "CheckRoundAndInit e"] in
         \<open>simp add: createBroadcastJob_def CheckRoundAndInit_def\<close>)
next
  case (Some t)
  then show ?thesis
    using Job_calls [of "CheckRoundAndInit e"]
      WaitForMinedTx_calls [of "snd (Job (CheckRoundAndInit e))"]
    by (cases "Job (CheckRoundAndInit e)"; cases "WaitForMinedTx (snd (Job (CheckRoundAndInit e)))")
       (simp add: createBroadcastJob_def CheckRoundAndInit_def split: option.splits)
qed

lemma createBroadcastJob_attempts:
  "job_attempts (snd (createBroadcastJob e)) = job_attempts e + 1"
  "round_waits (snd (createBroadcastJob e)) = round_waits e"
  using createBroadcastJob_calls [of e]
  by (auto simp: job_attempts_def round_waits_def filter_empty_conv)

lemma WaitUntilNextRound_attempts:
  "job_attempts (snd (WaitUntilNextRound e)) = job_attempts e"
  "round_waits (snd (WaitUntilNextRound e)) = round_waits e + 1"
  by (simp_all add: job_attempts_def round_waits_def WaitUntilNextRound_calls)

lemma TokenBalance_attempts:
  "job_attempts (snd (TokenBalance e)) = job_attempts e"
  "round_waits (snd (TokenBalance e)) = round_waits e"
  by (simp_all add: job_attempts_def round_waits_def TokenBalance_calls)

lemma createBroadcastJob_error: "fst (createBroadcastJob e) = Inl err \<Longrightarrow> err = ErrBroadcast"
  by (auto simp: createBroadcastJob_def Let_def split: prod.splits option.splits if_splits)

lemma createBroadcastJob_revert:
  "job_replies e = Some t # js \<Longrightarrow> mined_replies e = Some rc # ms \<Longrightarrow> Gas t = GasUsed rc \<Longrightarrow>
   fst (createBroadcastJob e) = Inl ErrBroadcast"
  by (simp add: createBroadcastJob_def CheckRoundAndInit_def Job_def WaitForMinedTx_def)

lemma createJobWithRetry_cases:
  "createJobWithRetry e =
     (let attempt1 = createBroadcastJob e; waited = WaitUntilNextRound (snd attempt1);
          attempt2 = createBroadcastJob (snd waited)
      in if \<not> isl (fst attempt1) then (None, snd attempt1)
         else if \<not> fst waited then (Some ErrBroadcast, snd waited)
         else (if isl (fst attempt2) then Some ErrBroadcast else None, snd attempt2))"
  by (simp add: createJobWithRetry_def Let_def split: prod.splits sum.splits)

lemma handler_job:
  assumes "Eth s = Some e0" "balance_ok s" "GetStream (StreamDB s) (StreamID rtmpStrm) = None"
  shows "fst (gotRTMPStreamHandler hlsID s rtmpStrm) =
           fst (createJobWithRetry (snd (TokenBalance e0)))"
    and "Eth (snd (gotRTMPStreamHandler hlsID s rtmpStrm)) =
           Some (snd (createJobWithRetry (snd (TokenBalance e0))))"
  using assms
  by (simp_all add: handler_gate_open checkTokenBalance_Eth AddStream_def GetStream_def
      startBroadcast_def AddNewStream_def Let_def split: prod.splits option.splits)

text \<open>
  Claim C6, as the code has it. Take a publish with a client configured that passes the
  balance check and whose id is new. \<open>attempt1\<close> is the first run of
  \<open>createBroadcastJob\<close>, \<open>waited\<close> the wait for the next round after it, \<open>attempt2\<close>
  the run after the wait. If the first attempt succeeds the handler returns nil after one
  attempt and no wait. If it fails and the wait fails too, the handler returns
  \<open>ErrBroadcast\<close> after that one attempt: there is no retry. If it fails and the wait
  succeeds there is exactly one more attempt, and the handler returns \<open>ErrBroadcast\<close>
  when that fails too and nil otherwise. Within any attempt, a receipt whose gas used
  equals the transaction's gas yields \<open>ErrBroadcast\<close>.
\<close>

theorem job_retry_policy:
  assumes "Eth s = Some e0" and "balance_ok s"
    and "GetStream (StreamDB s) (StreamID rtmpStrm) = None"
  shows "\<exists>e'. Eth (snd (gotRTMPStreamHandler hlsID s rtmpStrm)) = Some e' \<and>
     (let r = fst (gotRTMPStreamHandler hlsID s rtmpStrm);
          attempt1 = createBroadcastJob (snd (TokenBalance e0));
          waited = WaitUntilNextRound (snd attempt1);
          attempt2 = createBroadcastJob (snd waited)
      in if \<not> isl (fst attempt1)
         then r = None \<and> job_attempts e' = job_attempts e0 + 1 \<and> round_waits e' = round_waits e0
         else if \<not> fst waited
         then r = Some ErrBroadcast \<and> job_attempts e' = job_attempts e0 + 1 \<and>
              round_waits e' = round_waits e0 + 1
         else r = (if isl (fst attempt2) then Some ErrBroadcast else None) \<and>
              job_attempts e' = job_attempts e0 + 2 \<and> round_waits e' = round_waits e0 + 1) \<and>
     (\<forall>c t rc js ms. job_replies c = Some t # js \<and> mined_replies c = Some rc # ms \<and>
        Gas t = GasUsed rc \<longrightarrow> fst (createBroadcastJob c) = Inl ErrBroadcast)"
proof -
  let ?e = "snd (TokenBalance e0)"
  have a: "job_attempts ?e = job_attempts e0" "round_waits ?e = round_waits e0"
    by (rule TokenBalance_attempts)+
  show ?thesis
    unfolding handler_job [OF assms]
    by (simp add: createJobWithRetry_cases Let_def createBroadcastJob_attempts
        WaitUntilNextRound_attempts a createBroadcastJob_revert)
qed

theorem job_retry_policy_witness:
  "fst (gotRTMPStreamHandler ''node1|hls'' (emptyServer (Some retryClient))
         (newStream ''node1|abc'' RTMP)) = None \<and>
   map_option job_attempts (Eth (snd (gotRTMPStreamHandler ''node1|hls''
         (emptyServer (Some retryClient)) (newStream ''node1|abc'' RTMP)))) = Some 2"
  using job_retry_policy [of "emptyServer (Some retryClient)" retryClient
      "newStream ''node1|abc'' RTMP" "''node1|hls''"]
  by (auto simp add: createBroadcastJob_def emptyServer_def retryClient_def scriptedClient_def
      newStream_def TokenBalance_def Job_def WaitForMinedTx_def WaitUntilNextRound_def
      CheckRoundAndInit_def balance_ok_def GetStream_def Let_def job_attempts_def round_waits_def)

text \<open>
  The claim as worded fails: the first attempt fails, the wait for the next round fails,
  and the handler has made one attempt, not two.
\<close>

theorem no_retry_when_wait_fails:
  "fst (gotRTMPStreamHandler ''node1|hls''
         (emptyServer (Some (scriptedClient [Some 200] [None] [] [False])))
         (newStream ''node1|abc'' RTMP)) = Some ErrBroadcast \<and>
   map_option job_attempts (Eth (snd (gotRTMPStreamHandler ''node1|hls''
         (emptyServer (Some (scriptedClient [Some 200] [None] [] [False])))
         (newStream ''node1|abc'' RTMP)))) = Some 1"
  by (simp add: gotRTMPStreamHandler_def checkTokenBalance_def startBroadcast_def
      createJobWithRetry_def createBroadcastJob_def emptyServer_def scriptedClient_def newStream_def
      TokenBalance_def Job_def WaitForMinedTx_def WaitUntilNextRound_def CheckRoundAndInit_def
      AddStream_def AddNewStream_def GetStream_def Let_def job_attempts_def)

subsection \<open>The segmenter goroutine\<close>

text \<open>
  Claim C2, as the code has it. When the segmenter returns an error, the goroutine
  attempts exactly one write, of the segment with \<open>EOF = True\<close>, and the segment is
  appended to the HLS stream unless that write fails. When the segmenter returns nil,
  the goroutine attempts no write and the stream holds what the segmenter wrote.
\<close>

theorem segmenter_eof_only_on_error:
  "(segErr \<noteq> None \<longrightarrow>
      fst (snd (segmenterTask segs segErr writeErr hlsStrm)) = [eofSegment] \<and> EOF eofSegment \<and>
      written (fst (segmenterTask segs segErr writeErr hlsStrm)) =
        written hlsStrm @ segs @ (if writeErr = None then [eofSegment] else [])) \<and>
   (segErr = None \<longrightarrow>
      fst (snd (segmenterTask segs segErr writeErr hlsStrm)) = [] \<and>
      written (fst (segmenterTask segs segErr writeErr hlsStrm)) = written hlsStrm @ segs)"
  by (auto simp: segmenterTask_def WriteHLSSegmentToStream_def eofSegment_def zeroSegment_def Let_def
      split: option.splits)

theorem segmenter_eof_only_on_error_witness:
  "map EOF (written (fst (segmenterTask [zeroSegment] (Some ''segmenter failed'') None
      (newStream ''node1|hls'' HLS)))) = [False, True]"
  using segmenter_eof_only_on_error [of "Some ''segmenter failed''" "[zeroSegment]" None
      "newStream ''node1|hls'' HLS"]
  by (simp add: newStream_def eofSegment_def zeroSegment_def)

text \<open>
  The claim as worded fails: the segmenter returns nil after one segment, and the
  goroutine exits with no write attempted and no segment with \<open>EOF = True\<close> in the stream.
\<close>

theorem segmenter_clean_return_no_eof:
  "fst (snd (segmenterTask [zeroSegment] None None (newStream ''node1|hls'' HLS))) = [] \<and>
   map EOF (written (fst (segmenterTask [zeroSegment] None None (newStream ''node1|hls'' HLS))))
     = [False]"
  by (simp add: segmenterTask_def newStream_def zeroSegment_def)

section \<open>Properties of the subscription callback\<close>

text \<open>
  Claim C9 at its failing input. A stream has no buffer yet, so the handler subscribes
  with a nil \<open>buf\<close>; the first message delivered carries \<open>eof = True\<close>. The callback
  calls \<open>WriteEOF\<close> on the nil buffer and panics, whatever the decoder and the message.
\<close>

theorem eof_first_WriteEOF_on_nil:
  "buf (subscribeIfNoBuffer noBuffers strmID) = None \<and>
   subscribeCallback dec strmID (subscribeIfNoBuffer noBuffers strmID) (sn, bytes, True)
     = Inl NilDereference"
  by (simp add: subscribeCallback_def subscribeIfNoBuffer_def noBuffers_def GetHLSBuffer_def
      WriteEOF_def Let_def)

text \<open>
  When a segment is delivered first, the callback creates the buffer, and a later
  end-of-stream message finds it.
\<close>

lemma segment_first_creates_buffer:
  "\<exists>st a. subscribeCallback dec strmID (subscribeIfNoBuffer noBuffers strmID) (sn, bytes, False)
            = Inr st \<and>
     buf st = Some a \<and> heap st a \<noteq> None \<and>
     (\<exists>st'. subscribeCallback dec strmID st (sn', bytes', True) = Inr st')"
  by (simp add: subscribeCallback_def subscribeIfNoBuffer_def noBuffers_def GetHLSBuffer_def
      WriteEOF_def WriteSegment_def AddNewHLSBuffer_def Let_def)

section \<open>Properties of the transcoder conversion\<close>

lemma Int64_word_of_int: "Int64 x = word_of_int x"
  by (simp add: Int64_def)

lemma sint_Int64: "- (2 ^ 63) \<le> x \<Longrightarrow> x < 2 ^ 63 \<Longrightarrow> sint (Int64 x) = x"
  by (simp add: Int64_word_of_int signed_of_int signed_take_bit_int_eq_self)

text \<open>
  With both rounds present the conversion returns the database record with the service
  URI, the address and the two rounds as int64, each equal to the round when the round
  fits 64 signed bits; a nil record gives nil.
\<close>

lemma ethOrchToDBOrch_rounds_present:
  assumes "ActivationRound t = Some a" and "DeactivationRound t = Some d"
  shows "ethOrchToDBOrch (Some t) =
           Inr (Some \<lparr>db_ServiceURI = ServiceURI t, db_EthereumAddr = Address t, db_PricePerPixel = 0,
                      db_ActivationRound = Int64 a, db_DeactivationRound = Int64 d\<rparr>) \<and>
         (- (2 ^ 63) \<le> a \<and> a < 2 ^ 63 \<longrightarrow> sint (Int64 a) = a) \<and>
         (- (2 ^ 63) \<le> d \<and> d < 2 ^ 63 \<longrightarrow> sint (Int64 d) = d) \<and>
         ethOrchToDBOrch None = Inr None"
  using assms by (simp add: ethOrchToDBOrch_def sint_Int64)

lemma ethOrchToDBOrch_rounds_present_example:
  "map_sum id (map_option (\<lambda>r. (sint (db_ActivationRound r), sint (db_DeactivationRound r))))
     (ethOrchToDBOrch (Some (orchWithRounds (Some 5) (Some 9)))) = Inr (Some (5, 9))"
  using ethOrchToDBOrch_rounds_present [of "orchWithRounds (Some 5) (Some 9)" 5 9]
  by (simp add: orchWithRounds_def)

text \<open>
  Claim C8 at its failing inputs. The claim says the conversion is total, with an absent
  activation round taken as 0 and an absent deactivation round as the largest int64.
  The code dereferences both rounds while it builds the record it returns, and the nil
  checks of the source stand after that return: for every transcoder record, whatever
  its other fields, an absent activation round and an absent deactivation round each
  end the conversion with a nil dereference, and no record is produced. So it is for a
  record with deactivation round 9 and no activation round, and for one with
  activation round 5 and no deactivation round.
\<close>

theorem ethOrchToDBOrch_nil_round_panics:
  "ethOrchToDBOrch (Some (t\<lparr>ActivationRound := None\<rparr>)) = Inl NilDereference \<and>
   ethOrchToDBOrch (Some (t\<lparr>DeactivationRound := None\<rparr>)) = Inl NilDereference \<and>
   ethOrchToDBOrch (Some (orchWithRounds None (Some 9))) = Inl NilDereference \<and>
   ethOrchToDBOrch (Some (orchWithRounds (Some 5) None)) = Inl NilDereference"
  by (cases "ActivationRound t") (simp_all add: ethOrchToDBOrch_def orchWithRounds_def)

section \<open>Properties of the moving average\<close>

lemma walk_stop: "walk n e e = [e]"
  by (simp add: walk_def)

lemma walk_step:
  "0 \<le> i \<Longrightarrow> i < n \<Longrightarrow> 0 \<le> e \<Longrightarrow> e < n \<Longrightarrow> i \<noteq> e \<Longrightarrow>
   walk n i e = i # walk n (if i + 1 = n then 0 else i + 1) e"
  by (auto simp: walk_def upto_rec1 [of i])

lemma walk_nonempty: "i < n \<Longrightarrow> walk n i e \<noteq> []"
  by (auto simp: walk_def)

lemma walk_range:
  "0 \<le> i \<Longrightarrow> i < n \<Longrightarrow> 0 \<le> e \<Longrightarrow> e < n \<Longrightarrow> j \<in> set (walk n i e) \<Longrightarrow> 0 \<le> j \<and> j < n"
  by (auto simp: walk_def split: if_splits)

lemma contents_empty: "ring_ok ra \<Longrightarrow> \<not> hasData ra \<Longrightarrow> head ra = - 1 \<and> tail ra = - 1"
  by (auto simp: ring_ok_def hasData_def)

lemma hasData_range:
  "ring_ok ra \<Longrightarrow> hasData ra \<Longrightarrow>
   0 \<le> head ra \<and> head ra < int (length (data ra)) \<and> 0 \<le> tail ra \<and> tail ra < int (length (data ra))"
  by (auto simp: ring_ok_def hasData_def)

lemma contents_nonempty: "ring_ok ra \<Longrightarrow> hasData ra \<Longrightarrow> contents ra \<noteq> []"
  using hasData_range [of ra] by (simp add: contents_def walk_nonempty)

lemma contents_Nil_iff: "ring_ok ra \<Longrightarrow> contents ra = [] \<longleftrightarrow> \<not> hasData ra"
  using contents_nonempty [of ra] by (auto simp: contents_def)

lemma walk_hd: "0 \<le> i \<Longrightarrow> i < n \<Longrightarrow> hd (walk n i e) = i"
  by (auto simp: walk_def upto_rec1 [of i])

lemma contents_hd:
  "ring_ok ra \<Longrightarrow> hasData ra \<Longrightarrow> hd (contents ra) = data ra ! nat (tail ra)"
  using hasData_range [of ra]
  by (simp add: contents_def hd_map walk_nonempty walk_hd)

lemma getTail_contents:
  "ring_ok ra \<Longrightarrow> hasData ra \<Longrightarrow>
   getTail ra = Inr (tv_time (hd (contents ra)), tv_value (hd (contents ra)))"
  using hasData_range [of ra] by (auto simp: getTail_def contents_hd)

lemma pop_contents:
  assumes ok: "ring_ok ra" and hd: "hasData ra"
  shows "\<exists>ra'. pop ra = Inr (ra', tv_time (hd (contents ra)), tv_value (hd (contents ra))) \<and>
           ring_ok ra' \<and> contents ra' = tl (contents ra) \<and> data ra' = data ra"
proof -
  note r = hasData_range [OF ok hd]
  let ?n = "int (length (data ra))"
  show ?thesis
  proof (cases "tail ra = head ra")
    case True
    with r ok show ?thesis
      by (simp add: pop_def contents_hd [OF ok hd] Let_def ring_ok_def contents_def hasData_def walk_stop)
  next
    case False
    let ?t' = "if tail ra + 1 = ?n then 0 else tail ra + 1"
    have w: "walk ?n (tail ra) (head ra) = tail ra # walk ?n ?t' (head ra)"
      using r False by (intro walk_step) auto
    have p: "pop ra = Inr (ra\<lparr>tail := ?t'\<rparr>, tv_time (hd (contents ra)), tv_value (hd (contents ra)))"
      using r False by (auto simp: pop_def contents_hd [OF ok hd] Let_def)
    have "ring_ok (ra\<lparr>tail := ?t'\<rparr>)" using ok r by (auto simp: ring_ok_def)
    moreover have "contents (ra\<lparr>tail := ?t'\<rparr>) = tl (contents ra)"
      using r hd by (auto simp: contents_def hasData_def w)
    ultimately show ?thesis using p by auto
  qed
qed

lemma dropOld_contents:
  "ring_ok ra \<Longrightarrow>
   \<exists>ra'. dropOld now w ra = Some (Inr ra') \<and> ring_ok ra' \<and> length (data ra') = length (data ra) \<and>
         contents ra' = dropWhile (\<lambda>tv. w \<le> Sub now (tv_time tv)) (contents ra)"
proof (induction "length (contents ra)" arbitrary: ra)
  case 0
  then have "\<not> hasData ra" by (simp add: contents_Nil_iff)
  with 0 show ?case by (subst dropOld.simps) (simp add: contents_def)
next
  case (Suc k)
  then have hd: "hasData ra" using contents_Nil_iff [of ra] by auto
  from contents_nonempty [OF Suc.prems hd] obtain x xs where c: "contents ra = x # xs"
    by (cases "contents ra") auto
  show ?case
  proof (cases "w \<le> Sub now (tv_time x)")
    case False
    with hd c Suc.prems show ?thesis
      by (subst dropOld.simps) (simp add: getTail_contents)
  next
    case True
    from pop_contents [OF Suc.prems hd] c obtain ra' where
      p: "pop ra = Inr (ra', tv_time x, tv_value x)" and ok': "ring_ok ra'"
      and c': "contents ra' = xs" and d: "data ra' = data ra"
      by auto
    from Suc.hyps(2) c c' have "k = length (contents ra')" by simp
    from Suc.hyps(1) [OF this ok'] obtain ra'' where
      "dropOld now w ra' = Some (Inr ra'')" "ring_ok ra''" "length (data ra'') = length (data ra')"
      "contents ra'' = dropWhile (\<lambda>tv. w \<le> Sub now (tv_time tv)) (contents ra')"
      by blast
    with True hd c c' p d Suc.prems show ?thesis
      by (subst dropOld.simps) (simp add: getTail_contents)
  qed
qed


lemma map_nth_upto:
  "0 \<le> a \<Longrightarrow> b < int (length xs) \<Longrightarrow>
   map (\<lambda>j. xs ! nat j) [a..b] = take (nat (b + 1 - a)) (drop (nat a) xs)"
proof (induction "nat (b + 1 - a)" arbitrary: a)
  case 0
  then show ?case by simp
next
  case (Suc k)
  then have le: "a \<le> b" by linarith
  have k: "k = nat (b + 1 - (a + 1))" using Suc.hyps(2) by linarith
  have a1: "0 \<le> a + 1" using Suc.prems by simp
  note IH = Suc.hyps(1) [OF k a1 Suc.prems(2)]
  have na: "nat a < length xs" using Suc.prems le by linarith
  have d: "drop (nat a) xs = xs ! nat a # drop (nat (a + 1)) xs"
    using na Suc.prems(1) by (simp add: Cons_nth_drop_Suc nat_add_distrib)
  have t: "nat (b + 1 - a) = Suc (nat (b + 1 - (a + 1)))" using le by linarith
  show ?case
    by (subst upto_rec1 [OF le]) (simp add: IH d t)
qed

lemma walk_snoc:
  assumes "0 \<le> t" "t < n" "0 \<le> h" "h < n"
    and nf: "\<not> (h + 1 = t \<or> (h + 1 = n \<and> t = 0))"
  shows "walk n t (if h + 1 = n then 0 else h + 1) = walk n t h @ [if h + 1 = n then 0 else h + 1]"
    and "(if h + 1 = n then 0 else h + 1) \<notin> set (walk n t h)"
  using assms by (auto simp: walk_def upto_rec2 [of _ "h + 1"] split: if_splits)

lemma push_empty:
  assumes "ring_ok ra" "\<not> hasData ra"
  shows "\<exists>ra'. push ra t v = Inr ra' \<and> ring_ok ra' \<and> length (data ra') = length (data ra) \<and>
           contents ra' = contents ra @ [\<lparr>tv_time = t, tv_value = v\<rparr>]"
proof -
  from contents_empty [OF assms] have e: "head ra = - 1" "tail ra = - 1" by auto
  from assms(1) have n: "2 \<le> length (data ra)" by (simp add: ring_ok_def)
  then have ne: "data ra \<noteq> []" by auto
  show ?thesis
    using e n ne assms
    by (simp add: push_def ring_ok_def contents_def hasData_def walk_stop)
qed

lemma push_not_full:
  assumes ok: "ring_ok ra" and hd: "hasData ra" and nf: "\<not> ring_full ra"
  shows "\<exists>ra'. push ra t v = Inr ra' \<and> ring_ok ra' \<and> length (data ra') = length (data ra) \<and>
           contents ra' = contents ra @ [\<lparr>tv_time = t, tv_value = v\<rparr>]"
proof -
  note r = hasData_range [OF ok hd]
  let ?n = "int (length (data ra))"
  let ?h = "if head ra + 1 = ?n then 0 else head ra + 1"
  let ?tv = "\<lparr>tv_time = t, tv_value = v\<rparr>"
  let ?ra = "ra\<lparr>head := ?h, data := (data ra)[nat ?h := ?tv]\<rparr>"
  from nf have nf': "\<not> (head ra + 1 = tail ra \<or> (head ra + 1 = ?n \<and> tail ra = 0))"
    by (simp add: ring_full_def)
  have hr: "0 \<le> ?h" "?h < ?n" using r by auto
  have ne: "head ra \<noteq> - 1" using r by auto
  have p: "push ra t v = Inr ?ra"
    using ne nf' hr by (auto simp: push_def Let_def)
  have ok': "ring_ok ?ra" using ok r hr by (simp add: ring_ok_def)
  have w: "walk ?n (tail ra) ?h = walk ?n (tail ra) (head ra) @ [?h]"
    and notin: "?h \<notin> set (walk ?n (tail ra) (head ra))"
    using walk_snoc [of "tail ra" ?n "head ra"] r nf' by auto
  have same: "map (\<lambda>j. (data ra)[nat ?h := ?tv] ! nat j) (walk ?n (tail ra) (head ra))
      = map (\<lambda>j. data ra ! nat j) (walk ?n (tail ra) (head ra))"
  proof (rule map_cong [OF refl])
    fix j assume j: "j \<in> set (walk ?n (tail ra) (head ra))"
    with notin have "j \<noteq> ?h" by auto
    moreover from walk_range [of "tail ra" ?n "head ra" j] r j have "0 \<le> j" by auto
    ultimately have "nat j \<noteq> nat ?h" using hr by (simp add: nat_eq_iff)
    then show "(data ra)[nat ?h := ?tv] ! nat j = data ra ! nat j" by simp
  qed
  have hd': "hasData ?ra" using hr r by (simp add: hasData_def)
  have ln: "nat ?h < length (data ra)" using hr by auto
  have "contents ?ra = contents ra @ [?tv]"
    using hd hd' ln by (simp add: contents_def w same del: One_nat_def)
  with p ok' show ?thesis by auto
qed


lemma copy_into_zeros:
  "length src \<le> m \<Longrightarrow> copy (replicate m z) src = src @ replicate (m - length src) z"
  by (simp add: copy_def min_def)

lemma grow_contents:
  assumes ok: "ring_ok ra" and hd: "hasData ra" and full: "ring_full ra"
  shows "\<exists>ra'. grow ra = Inr ra' \<and>
           data ra' = contents ra @ replicate (length (data ra)) zeroTimeValue \<and>
           length (contents ra) = length (data ra) \<and>
           tail ra' = 0 \<and> head ra' = int (length (data ra)) - 1"
proof -
  note r = hasData_range [OF ok hd]
  from ok have n2: "2 \<le> length (data ra)" by (simp add: ring_ok_def)
  let ?n = "length (data ra)"
  let ?z = zeroTimeValue
  show ?thesis
  proof (cases "tail ra < head ra")
    case True
    with full have h: "head ra + 1 = int ?n" and t: "tail ra = 0"
      by (auto simp: ring_full_def)
    have c: "contents ra = data ra"
      using hd h t r map_nth_upto [of 0 "head ra" "data ra"]
      by (simp add: contents_def walk_def)
    have s: "subslice (data ra) 0 (int ?n) = Inr (data ra)" by (simp add: subslice_def)
    show ?thesis
      using True h t s c
      by (simp add: grow_def Let_def copy_into_zeros)
  next
    case False
    with full r n2 have ht: "head ra + 1 = tail ra"
      by (auto simp: ring_full_def)
    obtain tn where tn: "tail ra = int tn" "tn < ?n" "0 < tn"
      using r ht by (metis nat_0_le nat_less_iff zless_nat_conj zero_less_nat_eq add.commute
          add_nonneg_pos zero_less_one)
    have hn: "head ra = int tn - 1" using ht tn by simp
    have w: "walk (int ?n) (tail ra) (head ra) = [int tn..int ?n - 1] @ [0..int tn - 1]"
      using tn hn by (simp add: walk_def)
    have m1: "map (\<lambda>j. data ra ! nat j) [int tn..int ?n - 1] = drop tn (data ra)"
      using map_nth_upto [of "int tn" "int ?n - 1" "data ra"] tn by simp
    have m2: "map (\<lambda>j. data ra ! nat j) [0..int tn - 1] = take tn (data ra)"
      using map_nth_upto [of 0 "int tn - 1" "data ra"] tn by simp
    have c: "contents ra = drop tn (data ra) @ take tn (data ra)"
      using hd by (simp add: contents_def w m1 m2)
    have s1: "subslice (data ra) (int tn) (int ?n) = Inr (drop tn (data ra))"
      using tn by (simp add: subslice_def)
    have nd1: "copy (replicate (2 * ?n) ?z) (drop tn (data ra))
        = drop tn (data ra) @ replicate (?n + tn) ?z"
      using tn by (simp add: copy_into_zeros)
    have s2: "subslice (drop tn (data ra) @ replicate (?n + tn) ?z) (int ?n - int tn) (2 * int ?n)
        = Inr (replicate (?n + tn) ?z)"
      using tn by (simp add: subslice_def nat_diff_distrib' of_nat_diff)
    have s3: "subslice (data ra) 0 (int tn) = Inr (take tn (data ra))"
      using tn by (simp add: subslice_def)
    have cp: "copy (replicate (?n + tn) ?z) (take tn (data ra)) = take tn (data ra) @ replicate ?n ?z"
      using tn by (simp add: copy_into_zeros)
    have tk: "take (nat (int ?n - int tn)) (drop tn (data ra) @ replicate (?n + tn) ?z) = drop tn (data ra)"
      using tn by (simp add: nat_diff_distrib' of_nat_diff)
    show ?thesis
      using False tn hn
      by (simp add: grow_def Let_def s1 nd1 s2 s3 cp tk c)
  qed
qed

lemma push_full:
  assumes ok: "ring_ok ra" and hd: "hasData ra" and full: "ring_full ra"
  shows "\<exists>ra'. push ra t v = Inr ra' \<and> ring_ok ra' \<and>
           contents ra' = contents ra @ [\<lparr>tv_time = t, tv_value = v\<rparr>]"
proof -
  note r = hasData_range [OF ok hd]
  from ok have n2: "2 \<le> length (data ra)" by (simp add: ring_ok_def)
  let ?n = "length (data ra)"
  from grow_contents [OF ok hd full] obtain ra1 where
    g: "grow ra = Inr ra1" and d1: "data ra1 = contents ra @ replicate ?n zeroTimeValue"
    and lc: "length (contents ra) = ?n" and t1: "tail ra1 = 0" and h1: "head ra1 = int ?n - 1"
    by blast
  have l1: "length (data ra1) = 2 * ?n" using d1 lc by simp
  have npos: "data ra \<noteq> []" using n2 by auto
  have ok1: "ring_ok ra1" using l1 t1 h1 n2 npos by (simp add: ring_ok_def)
  have hd1: "hasData ra1" using t1 h1 n2 npos by (simp add: hasData_def)
  have nf1: "\<not> ring_full ra1" using t1 h1 l1 n2 npos by (auto simp: ring_full_def)
  have n1: "0 \<le> int ?n - 1" using n2 by linarith
  have "walk (int (length (data ra1))) (tail ra1) (head ra1) = [0..int ?n - 1]"
    unfolding t1 h1 walk_def using n1 by simp
  then have c1: "contents ra1 = contents ra"
    using hd1 map_nth_upto [of 0 "int ?n - 1" "data ra1"] l1 d1 lc
    by (simp add: contents_def)
  have ne: "head ra \<noteq> - 1" using r by auto
  have full': "head ra + 1 = tail ra \<or> (head ra + 1 = int ?n \<and> tail ra = 0)"
    using full by (simp add: ring_full_def)
  have p: "push ra t v =
     (let h = head ra1 + 1; h' = (if h = int (length (data ra1)) then 0 else h)
      in if h' < 0 \<or> int (length (data ra1)) \<le> h' then Inl IndexOutOfRange
         else Inr (ra1\<lparr>head := h', data := (data ra1)[nat h' := \<lparr>tv_time = t, tv_value = v\<rparr>]\<rparr>))"
    using ne full' g by (simp add: push_def Let_def)
  have ne1: "head ra1 \<noteq> - 1" using h1 n1 by linarith
  have nf1': "\<not> (head ra1 + 1 = tail ra1 \<or> (head ra1 + 1 = int (length (data ra1)) \<and> tail ra1 = 0))"
    using nf1 by (simp add: ring_full_def)
  have "push ra t v = push ra1 t v"
    unfolding p using ne1 nf1' by (auto simp: push_def Let_def)
  with push_not_full [OF ok1 hd1 nf1, of t v] c1 show ?thesis by auto
qed

lemma push_contents:
  assumes ok: "ring_ok ra"
  shows "\<exists>ra'. push ra t v = Inr ra' \<and> ring_ok ra' \<and>
           contents ra' = contents ra @ [\<lparr>tv_time = t, tv_value = v\<rparr>]"
proof (cases "hasData ra")
  case False
  with push_empty [OF ok, of t v] show ?thesis by auto
next
  case True
  show ?thesis
  proof (cases "ring_full ra")
    case True
    with push_full [OF ok \<open>hasData ra\<close>, of t v] show ?thesis by auto
  next
    case False
    with push_not_full [OF ok True, of t v] show ?thesis by auto
  qed
qed


lemma average_loop_walk:
  assumes h: "0 \<le> head ra" "head ra < int (length (data ra))"
  shows "0 \<le> i \<Longrightarrow> i < int (length (data ra)) \<Longrightarrow> i \<noteq> head ra \<Longrightarrow>
    average_loop ra i acc num =
      Some (Inr (acc + sum_list (map (\<lambda>j. tv_value (data ra ! nat j)) (walk (int (length (data ra))) i (head ra))),
                 num + real (length (walk (int (length (data ra))) i (head ra)))))"
proof (induction "length (walk (int (length (data ra))) i (head ra))" arbitrary: i acc num)
  case 0
  then show ?case using walk_nonempty [of i "int (length (data ra))" "head ra"] by simp
next
  case (Suc k)
  let ?n = "int (length (data ra))"
  let ?i' = "if i + 1 = ?n then 0 else i + 1"
  have w: "walk ?n i (head ra) = i # walk ?n ?i' (head ra)"
    using Suc.prems h by (intro walk_step) auto
  have r: "0 \<le> ?i'" "?i' < ?n" using Suc.prems by auto
  show ?case
  proof (cases "?i' = head ra")
    case True
    then have "walk ?n ?i' (head ra) = [head ra]" by (simp add: walk_stop)
    with True w Suc.prems show ?thesis
      by (subst average_loop.simps) (simp add: Let_def)
  next
    case False
    from w Suc.hyps(2) have k: "k = length (walk ?n ?i' (head ra))" by simp
    note IH = Suc.hyps(1) [OF k r False]
    show ?thesis
      using Suc.prems False
      by (subst average_loop.simps) (simp add: w IH Let_def)
  qed
qed

lemma average_contents:
  assumes ok: "ring_ok ra" and hd: "hasData ra"
  shows "average ra = Some (Inr (mean (map tv_value (contents ra))))"
proof -
  note r = hasData_range [OF ok hd]
  show ?thesis
  proof (cases "head ra = tail ra")
    case True
    with r hd show ?thesis
      by (simp add: average_def contents_def walk_stop mean_def)
  next
    case False
    then have ne: "tail ra \<noteq> head ra" by simp
    from r have h: "0 \<le> head ra" "head ra < int (length (data ra))"
      and t: "0 \<le> tail ra" "tail ra < int (length (data ra))" by auto
    note l = average_loop_walk [OF h t ne, of 0 0]
    show ?thesis
      using False hd
      by (simp add: average_def l contents_def mean_def comp_def)
  qed
qed

lemma push_hasData:
  assumes "ring_ok ra'" "contents ra' = xs @ [x]"
  shows "hasData ra'"
  using assms contents_Nil_iff [of ra'] by auto

lemma addSample_contents:
  assumes ok: "ring_ok (ma_data ma)"
  shows "\<exists>ma'. addSample ma now v =
           Some (Inr (ma', mean (map tv_value
             (dropWhile (\<lambda>tv. windowSize ma \<le> Sub now (tv_time tv)) (contents (ma_data ma))) @ [v]))) \<and>
         ring_ok (ma_data ma') \<and> windowSize ma' = windowSize ma \<and>
         contents (ma_data ma') =
           dropWhile (\<lambda>tv. windowSize ma \<le> Sub now (tv_time tv)) (contents (ma_data ma)) @
             [\<lparr>tv_time = now, tv_value = v\<rparr>]"
proof -
  let ?kept = "dropWhile (\<lambda>tv. windowSize ma \<le> Sub now (tv_time tv)) (contents (ma_data ma))"
  from dropOld_contents [OF ok, of now "windowSize ma"] obtain ra1 where
    d: "dropOld now (windowSize ma) (ma_data ma) = Some (Inr ra1)" and ok1: "ring_ok ra1"
    and c1: "contents ra1 = ?kept"
    by blast
  from push_contents [OF ok1, of now v] obtain ra2 where
    p: "push ra1 now v = Inr ra2" and ok2: "ring_ok ra2"
    and c2: "contents ra2 = contents ra1 @ [\<lparr>tv_time = now, tv_value = v\<rparr>]"
    by blast
  have hd2: "hasData ra2" by (rule push_hasData [OF ok2 c2])
  note a = average_contents [OF ok2 hd2]
  show ?thesis
    using d p a ok2 c2 c1 by (simp add: addSample_def)
qed


lemma Sub_mono_left: "t \<le> t' \<Longrightarrow> Sub t u \<le> Sub t' u"
  by (simp add: Sub_def Let_def)

lemma Sub_anti_right: "u \<le> u' \<Longrightarrow> Sub t u' \<le> Sub t u"
  by (simp add: Sub_def Let_def)

lemma Sub_self: "Sub t t = 0"
  by (simp add: Sub_def)

lemma dropWhile_eq_filter:
  assumes "sorted (map f xs)" and "\<And>a b. f a \<le> f b \<Longrightarrow> P b \<Longrightarrow> P a"
  shows "dropWhile P xs = filter (\<lambda>x. \<not> P x) xs"
  using assms(1)
proof (induction xs)
  case Nil
  then show ?case by simp
next
  case (Cons x xs)
  show ?case
  proof (cases "P x")
    case True
    with Cons show ?thesis by simp
  next
    case False
    have "\<forall>y\<in>set xs. \<not> P y"
    proof
      fix y assume "y \<in> set xs"
      with Cons.prems have "f x \<le> f y" by auto
      with assms(2) [of x y] False show "\<not> P y" by blast
    qed
    then have "filter (\<lambda>x. \<not> P x) xs = xs" by (simp add: filter_id_conv)
    with False show ?thesis by simp
  qed
qed

lemma kept_is_window:
  assumes srt: "sorted (map fst seen)" and t: "t0 \<le> t"
  shows "dropWhile (\<lambda>tv. w \<le> Sub t (tv_time tv)) (map sample_tv (filter (in_window w t0) seen))
         = map sample_tv (filter (in_window w t) seen)"
proof -
  let ?xs = "map sample_tv (filter (in_window w t0) seen)"
  have tf: "tv_time \<circ> sample_tv = fst" by (rule ext) (simp add: sample_tv_def)
  have "sorted (map fst (filter (in_window w t0) seen))"
    using srt by (simp add: sorted_map sorted_wrt_filter)
  then have s: "sorted (map tv_time ?xs)" by (simp add: tf)
  have "dropWhile (\<lambda>tv. w \<le> Sub t (tv_time tv)) ?xs = filter (\<lambda>tv. \<not> w \<le> Sub t (tv_time tv)) ?xs"
  proof (rule dropWhile_eq_filter [OF s])
    fix a b :: timeValue
    assume "tv_time a \<le> tv_time b" and "w \<le> Sub t (tv_time b)"
    with Sub_anti_right [of "tv_time a" "tv_time b" t] show "w \<le> Sub t (tv_time a)" by linarith
  qed
  also have "\<dots> = map sample_tv (filter (\<lambda>s. in_window w t s \<and> in_window w t0 s) seen)"
    by (simp add: filter_map comp_def sample_tv_def in_window_def not_le conj_commute)
  also have "(\<lambda>s. in_window w t s \<and> in_window w t0 s) = in_window w t"
  proof
    fix s :: "int \<times> real"
    have "Sub t0 (fst s) \<le> Sub t (fst s)" by (rule Sub_mono_left [OF t])
    then show "(in_window w t s \<and> in_window w t0 s) = in_window w t s"
      by (auto simp: in_window_def)
  qed
  finally show ?thesis .
qed

lemma addSamples_expected:
  assumes w: "0 < w"
  shows "ring_ok (ma_data ma) \<Longrightarrow> windowSize ma = w \<Longrightarrow>
    contents (ma_data ma) = map sample_tv (filter (in_window w t0) seen) \<Longrightarrow>
    sorted (map fst seen) \<Longrightarrow> \<forall>s\<in>set seen. fst s \<le> t0 \<Longrightarrow> sorted (t0 # map fst samples) \<Longrightarrow>
    \<exists>ma'. addSamples ma samples = Some (Inr (ma', expected w seen samples))"
proof (induction samples arbitrary: ma seen t0)
  case Nil
  then show ?case by simp
next
  case (Cons s samples)
  obtain t v where s: "s = (t, v)" by (cases s)
  from Cons.prems s have t: "t0 \<le> t" by simp
  let ?kept = "dropWhile (\<lambda>tv. windowSize ma \<le> Sub t (tv_time tv)) (contents (ma_data ma))"
  have kept: "?kept = map sample_tv (filter (in_window w t) seen)"
    using Cons.prems(2,3) kept_is_window [OF Cons.prems(4) t, of w] by simp
  have inw: "in_window w t (t, v)" using w by (simp add: in_window_def Sub_self)
  from addSample_contents [OF Cons.prems(1), of t v] obtain ma1 where
    a: "addSample ma t v = Some (Inr (ma1, mean (map tv_value ?kept @ [v])))"
    and ok1: "ring_ok (ma_data ma1)" and w1: "windowSize ma1 = windowSize ma"
    and c1: "contents (ma_data ma1) = ?kept @ [\<lparr>tv_time = t, tv_value = v\<rparr>]"
    by blast
  have c1': "contents (ma_data ma1) = map sample_tv (filter (in_window w t) (seen @ [s]))"
    using c1 kept inw s by (simp add: sample_tv_def)
  have val: "map tv_value ?kept @ [v] = map snd (filter (in_window w t) (seen @ [s]))"
    using kept inw s by (simp add: sample_tv_def comp_def)
  have srt': "sorted (map fst (seen @ [s]))"
    using Cons.prems(4,5) t s by (auto simp: sorted_append)
  have le': "\<forall>x\<in>set (seen @ [s]). fst x \<le> t"
    using Cons.prems(5) t s by auto
  have rest: "sorted (t # map fst samples)" using Cons.prems(6) s by simp
  from Cons.IH [OF ok1 _ c1' srt' le' rest] w1 Cons.prems(2) obtain ma2 where
    "addSamples ma1 samples = Some (Inr (ma2, expected w (seen @ [s]) samples))"
    by auto
  with a val s show ?case by simp
qed

text \<open>
  What the code computes. Into a new moving average with a positive window and a ring
  of at least two slots, push any samples in nondecreasing time order. Every push
  returns, and the value it returns is the arithmetic mean of exactly those samples so
  far whose age at the push is strictly less than the window: the samples in the
  half-open interval that excludes \<open>now - window\<close> and includes \<open>now\<close>. The code
  departs from the mean over the closed window only through samples exactly one window
  old.
\<close>

lemma addSamples_half_open_window:
  assumes "0 < w" and "2 \<le> n" and "sorted (map fst samples)"
  shows "returned (addSamples (newMovingAverage w n) samples) = Some (Inr (expected w [] samples))"
proof -
  let ?t0 = "case samples of [] \<Rightarrow> 0 | s # _ \<Rightarrow> fst s"
  have ok: "ring_ok (ma_data (newMovingAverage w n))"
    using assms(2) by (simp add: ring_ok_def newMovingAverage_def newRingArray_def)
  have c: "contents (ma_data (newMovingAverage w n)) = map sample_tv (filter (in_window w ?t0) [])"
    by (simp add: contents_def hasData_def newMovingAverage_def newRingArray_def)
  have srt: "sorted (?t0 # map fst samples)" using assms(3) by (cases samples) auto
  from addSamples_expected [OF assms(1) ok _ c _ _ srt] obtain ma' where
    "addSamples (newMovingAverage w n) samples = Some (Inr (ma', expected w [] samples))"
    by (auto simp: newMovingAverage_def)
  then show ?thesis by (simp add: returned_def)
qed

lemma addSamples_half_open_window_example:
  "sorted (map fst scenarioSamples) \<and>
   returned (addSamples (newMovingAverage (60 * second) 4) scenarioSamples) = Some (Inr [1, 2, 5])"
proof -
  have w: "0 < 60 * second" by (simp add: second_def)
  have n: "(2::nat) \<le> 4" by simp
  have s: "sorted (map fst scenarioSamples)" by (simp add: scenarioSamples_def second_def)
  have e: "expected (60 * second) [] scenarioSamples = [1, 2, 5]" by code_simp
  from addSamples_half_open_window [OF w n s] e s show ?thesis by simp
qed

text \<open>
  Claim C5 at its failing input, the claim's own example. The claim says every push
  returns the mean of the samples whose timestamps lie in the closed interval from
  \<open>now - window\<close> to \<open>now\<close>, and 4 after the third push of the example. With a
  window of 60 seconds the samples \<open>(t0, 1)\<close>, \<open>(t0 + 30s, 3)\<close>, \<open>(t0 + 90s, 5)\<close>
  return 1, 2 and then 5: at the third push the sample of \<open>t0 + 30s\<close> is exactly one
  window old, and the loop of \<open>addSample\<close> pops it. The means over the closed window
  are 1, 2 and 4.
\<close>

theorem addSample_drops_sample_at_window_edge:
  "returned (addSamples (newMovingAverage (60 * second) 4) scenarioSamples) = Some (Inr [1, 2, 5]) \<and>
   claimed (60 * second) [] scenarioSamples = [1, 2, 4]"
  by code_simp

section \<open>Properties of the segments averager\<close>






lemma rate_in_unit:
  fixes t e :: int
  shows "0 \<le> t \<Longrightarrow> t \<le> e \<Longrightarrow> 0 < e \<Longrightarrow> 0 \<le> real_of_int t / real_of_int e \<and> real_of_int t / real_of_int e \<le> 1"
  by simp

lemma rate_nonneg:
  fixes t e :: int
  shows "0 \<le> t \<Longrightarrow> 0 < e \<Longrightarrow> 0 \<le> real_of_int t / real_of_int e"
  by simp














end
